theory Spec2Isabelle
  imports Main "HOL-Library.Word" "HOL-Library.AList"
begin

unbundle bit_operations_syntax

section \<open>Binary Avro decoder (avro\_io.py)\<close>

type_synonym byte = "8 word"

datatype error =
    StopIteration
  | AssertionError
  | TypeError
  | ValueError
  | IndexError
  | UnicodeDecodeError
  | AvroException
  | SchemaResolutionException

record reader =
  buf :: "byte list"
  pos :: nat

definition reader_read :: "reader \<Rightarrow> nat \<Rightarrow> byte list \<times> reader" where
  "reader_read r n =
     (let bs = take n (drop (pos r) (buf r)) in (bs, r\<lparr>pos := pos r + length bs\<rparr>))"

definition reader_tell :: "reader \<Rightarrow> int" where
  "reader_tell r = int (pos r)"

definition reader_seek :: "reader \<Rightarrow> int \<Rightarrow> error + reader" where
  "reader_seek r p = (if p < 0 then Inl ValueError else Inr (r\<lparr>pos := nat p\<rparr>))"

definition read :: "reader \<Rightarrow> int \<Rightarrow> error + byte list \<times> reader" where
  "read r n =
     (if \<not> n \<ge> 0 then Inl AssertionError
      else case reader_read r (nat n) of (input_bytes, r') \<Rightarrow>
        if n > 0 \<and> input_bytes = [] then Inl StopIteration
        else if \<not> int (length input_bytes) = n then Inl AssertionError
        else Inr (input_bytes, r'))"

definition ord :: "byte list \<Rightarrow> error + int" where
  "ord bs = (case bs of [b] \<Rightarrow> Inr (uint b) | _ \<Rightarrow> Inl TypeError)"

definition read_ord :: "reader \<Rightarrow> error + int \<times> reader" where
  "read_ord r =
     (case read r 1 of Inl e \<Rightarrow> Inl e
      | Inr (bs, r') \<Rightarrow> (case ord bs of Inl e \<Rightarrow> Inl e | Inr b \<Rightarrow> Inr (b, r')))"

function read_long_loop :: "reader \<Rightarrow> int \<Rightarrow> int \<Rightarrow> nat \<Rightarrow> error + int \<times> reader" where
  "read_long_loop r b n shift =
     (if b AND 0x80 \<noteq> 0 then
        (case read_ord r of Inl e \<Rightarrow> Inl e
         | Inr (b', r') \<Rightarrow> read_long_loop r' b' (n OR push_bit shift (b' AND 0x7F)) (shift + 7))
      else Inr (n, r))"
  by pat_completeness auto
termination
  by (relation "measure (\<lambda>(r, b, n, shift). length (buf r) - pos r)")
     (auto simp: read_ord_def read_def reader_read_def Let_def
           split: if_splits sum.splits prod.splits)

definition read_long :: "reader \<Rightarrow> error + int \<times> reader" where
  "read_long r =
     (case read_ord r of Inl e \<Rightarrow> Inl e
      | Inr (b, r1) \<Rightarrow>
          (case read_long_loop r1 b (b AND 0x7F) 7 of Inl e \<Rightarrow> Inl e
           | Inr (n, r2) \<Rightarrow> Inr ((drop_bit 1 n) XOR - (n AND 1), r2)))"

definition read_int :: "reader \<Rightarrow> error + int \<times> reader" where
  "read_int r = read_long r"


definition read_null :: "unit" where
  "read_null = ()"

definition read_boolean :: "reader \<Rightarrow> error + bool \<times> reader" where
  "read_boolean r =
     (case read_ord r of Inl e \<Rightarrow> Inl e
      | Inr (b, r') \<Rightarrow>
          if b = 1 then Inr (True, r')
          else if b = 0 then Inr (False, r')
          else Inl AvroException)"

definition read_float :: "reader \<Rightarrow> error + byte list \<times> reader" where
  "read_float r = read r 4"

definition read_double :: "reader \<Rightarrow> error + byte list \<times> reader" where
  "read_double r = read r 8"

definition read_bytes :: "reader \<Rightarrow> error + byte list \<times> reader" where
  "read_bytes r =
     (case read_long r of Inl e \<Rightarrow> Inl e
      | Inr (nbytes, r') \<Rightarrow> if \<not> nbytes \<ge> 0 then Inl AssertionError else read r' nbytes)"

type_synonym pystr = "nat list"

definition continuation :: "byte \<Rightarrow> bool" where
  "continuation b = (0x80 \<le> b \<and> b \<le> 0xBF)"

fun utf8_decode :: "byte list \<Rightarrow> pystr option" where
  "utf8_decode [] = Some []"
| "utf8_decode (b0 # bs) =
     (if b0 < 0x80 then map_option ((#) (unat b0)) (utf8_decode bs)
      else if 0xC2 \<le> b0 \<and> b0 \<le> 0xDF then
        (case bs of
           b1 # bs1 \<Rightarrow>
             if continuation b1
             then map_option ((#) (unat (b0 AND 0x1F) * 64 + unat (b1 AND 0x3F))) (utf8_decode bs1)
             else None
         | _ \<Rightarrow> None)
      else if 0xE0 \<le> b0 \<and> b0 \<le> 0xEF then
        (case bs of
           b1 # b2 # bs2 \<Rightarrow>
             if (if b0 = 0xE0 then 0xA0 \<le> b1 \<and> b1 \<le> 0xBF
                 else if b0 = 0xED then 0x80 \<le> b1 \<and> b1 \<le> 0x9F
                 else continuation b1) \<and> continuation b2
             then map_option
                    ((#) (unat (b0 AND 0x0F) * 4096 + unat (b1 AND 0x3F) * 64 + unat (b2 AND 0x3F)))
                    (utf8_decode bs2)
             else None
         | _ \<Rightarrow> None)
      else if 0xF0 \<le> b0 \<and> b0 \<le> 0xF4 then
        (case bs of
           b1 # b2 # b3 # bs3 \<Rightarrow>
             if (if b0 = 0xF0 then 0x90 \<le> b1 \<and> b1 \<le> 0xBF
                 else if b0 = 0xF4 then 0x80 \<le> b1 \<and> b1 \<le> 0x8F
                 else continuation b1) \<and> continuation b2 \<and> continuation b3
             then map_option
                    ((#) (unat (b0 AND 0x07) * 262144 + unat (b1 AND 0x3F) * 4096
                          + unat (b2 AND 0x3F) * 64 + unat (b3 AND 0x3F)))
                    (utf8_decode bs3)
             else None
         | _ \<Rightarrow> None)
      else None)"

definition read_utf8 :: "reader \<Rightarrow> error + pystr \<times> reader" where
  "read_utf8 r =
     (case read_bytes r of Inl e \<Rightarrow> Inl e
      | Inr (input_bytes, r') \<Rightarrow>
          (case utf8_decode input_bytes of
             None \<Rightarrow> Inl UnicodeDecodeError
           | Some s \<Rightarrow> Inr (s, r')))"

definition skip :: "reader \<Rightarrow> int \<Rightarrow> error + reader" where
  "skip r n = reader_seek r (reader_tell r + n)"

definition skip_null :: "reader \<Rightarrow> error + reader" where
  "skip_null r = Inr r"

definition skip_boolean :: "reader \<Rightarrow> error + reader" where
  "skip_boolean r = skip r 1"

function skip_long_loop :: "reader \<Rightarrow> int \<Rightarrow> error + reader" where
  "skip_long_loop r b =
     (if b AND 0x80 \<noteq> 0 then
        (case read_ord r of Inl e \<Rightarrow> Inl e | Inr (b', r') \<Rightarrow> skip_long_loop r' b')
      else Inr r)"
  by pat_completeness auto
termination
  by (relation "measure (\<lambda>(r, b). length (buf r) - pos r)")
     (auto simp: read_ord_def read_def reader_read_def Let_def
           split: if_splits sum.splits prod.splits)

definition skip_long :: "reader \<Rightarrow> error + reader" where
  "skip_long r =
     (case read_ord r of Inl e \<Rightarrow> Inl e | Inr (b, r') \<Rightarrow> skip_long_loop r' b)"

definition skip_int :: "reader \<Rightarrow> error + reader" where
  "skip_int r = skip_long r"

definition skip_float :: "reader \<Rightarrow> error + reader" where
  "skip_float r = skip r 4"

definition skip_double :: "reader \<Rightarrow> error + reader" where
  "skip_double r = skip r 8"

definition skip_bytes :: "reader \<Rightarrow> error + reader" where
  "skip_bytes r =
     (case read_long r of Inl e \<Rightarrow> Inl e | Inr (n, r') \<Rightarrow> skip r' n)"

definition skip_utf8 :: "reader \<Rightarrow> error + reader" where
  "skip_utf8 r = skip_bytes r"


subsection \<open>Schemas and decoded data\<close>

datatype schema =
    SNull
  | SBoolean
  | SString
  | SInt
  | SLong
  | SFloat
  | SDouble
  | SBytes
  | SFixed int
  | SEnum "string list"
  | SArray schema
  | SMap schema
  | SUnion "schema list"
  | SRecord "(string \<times> schema) list"
  | SOther string

datatype avro_value =
    VNone
  | VBool bool
  | VStr pystr
  | VInt int
  | VFloat "byte list"
  | VBytes "byte list"
  | VList "avro_value list"
  | VDict "(pystr \<times> avro_value) list"

definition str :: "string \<Rightarrow> pystr" where
  "str s = map of_char s"

definition getitem :: "'a list \<Rightarrow> int \<Rightarrow> error + 'a" where
  "getitem xs i =
     (let n = int (length xs); j = (if i < 0 then i + n else i)
      in if 0 \<le> j \<and> j < n then Inr (xs ! nat j) else Inl IndexError)"

subsection \<open>DatumReader\<close>

type_synonym 'a outcome = "(error + 'a \<times> reader) option"

definition read_fixed :: "int \<Rightarrow> reader \<Rightarrow> error + byte list \<times> reader" where
  "read_fixed n r = read r n"

definition skip_fixed :: "int \<Rightarrow> reader \<Rightarrow> error + reader" where
  "skip_fixed n r = skip r n"

definition read_enum :: "string list \<Rightarrow> reader \<Rightarrow> error + string \<times> reader" where
  "read_enum symbols r =
     (case read_int r of Inl e \<Rightarrow> Inl e
      | Inr (index_of_symbol, r') \<Rightarrow>
          if index_of_symbol \<ge> int (length symbols) then Inl SchemaResolutionException
          else (case getitem symbols index_of_symbol of Inl e \<Rightarrow> Inl e
                | Inr read_symbol \<Rightarrow> Inr (read_symbol, r')))"

definition skip_enum :: "reader \<Rightarrow> error + reader" where
  "skip_enum r = skip_int r"

fun read_array_for ::
  "(reader \<Rightarrow> avro_value outcome) \<Rightarrow> nat \<Rightarrow> avro_value list \<Rightarrow> reader \<Rightarrow> (avro_value list) outcome" where
  "read_array_for rd 0 read_items r = Some (Inr (read_items, r))"
| "read_array_for rd (Suc k) read_items r =
     (case rd r of None \<Rightarrow> None
      | Some (Inl e) \<Rightarrow> Some (Inl e)
      | Some (Inr (v, r')) \<Rightarrow> read_array_for rd k (read_items @ [v]) r')"

fun read_array_while ::
  "nat \<Rightarrow> (reader \<Rightarrow> avro_value outcome) \<Rightarrow> int \<Rightarrow> avro_value list \<Rightarrow> reader \<Rightarrow> (avro_value list) outcome" where
  "read_array_while 0 rd block_count read_items r = None"
| "read_array_while (Suc fuel) rd block_count read_items r =
     (if block_count \<noteq> 0 then
        (case (if block_count < 0
               then (case read_long r of Inl e \<Rightarrow> Inl e | Inr (_, r1) \<Rightarrow> Inr (- block_count, r1))
               else Inr (block_count, r)) of
           Inl e \<Rightarrow> Some (Inl e)
         | Inr (block_count1, r1) \<Rightarrow>
             (case read_array_for rd (nat block_count1) read_items r1 of
                None \<Rightarrow> None
              | Some (Inl e) \<Rightarrow> Some (Inl e)
              | Some (Inr (read_items1, r2)) \<Rightarrow>
                  (case read_long r2 of Inl e \<Rightarrow> Some (Inl e)
                   | Inr (block_count2, r3) \<Rightarrow> read_array_while fuel rd block_count2 read_items1 r3)))
      else Some (Inr (read_items, r)))"

definition read_array ::
  "nat \<Rightarrow> (reader \<Rightarrow> avro_value outcome) \<Rightarrow> reader \<Rightarrow> (avro_value list) outcome" where
  "read_array fuel rd r =
     (case read_long r of Inl e \<Rightarrow> Some (Inl e)
      | Inr (block_count, r1) \<Rightarrow> read_array_while fuel rd block_count [] r1)"

fun read_map_for ::
  "(reader \<Rightarrow> avro_value outcome) \<Rightarrow> nat \<Rightarrow> (pystr \<times> avro_value) list \<Rightarrow> reader
     \<Rightarrow> ((pystr \<times> avro_value) list) outcome" where
  "read_map_for rd 0 read_items r = Some (Inr (read_items, r))"
| "read_map_for rd (Suc k) read_items r =
     (case read_utf8 r of Inl e \<Rightarrow> Some (Inl e)
      | Inr (key, r1) \<Rightarrow>
          (case rd r1 of None \<Rightarrow> None
           | Some (Inl e) \<Rightarrow> Some (Inl e)
           | Some (Inr (v, r2)) \<Rightarrow> read_map_for rd k (AList.update key v read_items) r2))"

fun read_map_while ::
  "nat \<Rightarrow> (reader \<Rightarrow> avro_value outcome) \<Rightarrow> int \<Rightarrow> (pystr \<times> avro_value) list \<Rightarrow> reader
     \<Rightarrow> ((pystr \<times> avro_value) list) outcome" where
  "read_map_while 0 rd block_count read_items r = None"
| "read_map_while (Suc fuel) rd block_count read_items r =
     (if block_count \<noteq> 0 then
        (case (if block_count < 0
               then (case read_long r of Inl e \<Rightarrow> Inl e | Inr (_, r1) \<Rightarrow> Inr (- block_count, r1))
               else Inr (block_count, r)) of
           Inl e \<Rightarrow> Some (Inl e)
         | Inr (block_count1, r1) \<Rightarrow>
             (case read_map_for rd (nat block_count1) read_items r1 of
                None \<Rightarrow> None
              | Some (Inl e) \<Rightarrow> Some (Inl e)
              | Some (Inr (read_items1, r2)) \<Rightarrow>
                  (case read_long r2 of Inl e \<Rightarrow> Some (Inl e)
                   | Inr (block_count2, r3) \<Rightarrow> read_map_while fuel rd block_count2 read_items1 r3)))
      else Some (Inr (read_items, r)))"

definition read_map ::
  "nat \<Rightarrow> (reader \<Rightarrow> avro_value outcome) \<Rightarrow> reader \<Rightarrow> ((pystr \<times> avro_value) list) outcome" where
  "read_map fuel rd r =
     (case read_long r of Inl e \<Rightarrow> Some (Inl e)
      | Inr (block_count, r1) \<Rightarrow> read_map_while fuel rd block_count [] r1)"

definition read_union ::
  "(schema \<Rightarrow> reader \<Rightarrow> avro_value outcome) \<Rightarrow> schema list \<Rightarrow> reader \<Rightarrow> avro_value outcome" where
  "read_union rd schemas r =
     (case read_long r of Inl e \<Rightarrow> Some (Inl e)
      | Inr (index_of_schema, r') \<Rightarrow>
          if index_of_schema \<ge> int (length schemas) then Some (Inl SchemaResolutionException)
          else (case getitem schemas index_of_schema of Inl e \<Rightarrow> Some (Inl e)
                | Inr selected_writer_schema \<Rightarrow> rd selected_writer_schema r'))"

fun read_record_for ::
  "(schema \<Rightarrow> reader \<Rightarrow> avro_value outcome) \<Rightarrow> (string \<times> schema) list \<Rightarrow> (pystr \<times> avro_value) list
     \<Rightarrow> reader \<Rightarrow> ((pystr \<times> avro_value) list) outcome" where
  "read_record_for rd [] read_record r = Some (Inr (read_record, r))"
| "read_record_for rd ((name, field_type) # field_list) read_record r =
     (case rd field_type r of None \<Rightarrow> None
      | Some (Inl e) \<Rightarrow> Some (Inl e)
      | Some (Inr (field_val, r')) \<Rightarrow>
          read_record_for rd field_list (AList.update (str name) field_val read_record) r')"

definition read_record ::
  "(schema \<Rightarrow> reader \<Rightarrow> avro_value outcome) \<Rightarrow> (string \<times> schema) list \<Rightarrow> reader
     \<Rightarrow> ((pystr \<times> avro_value) list) outcome" where
  "read_record rd field_list r = read_record_for rd field_list [] r"

definition lift :: "('a \<Rightarrow> avro_value) \<Rightarrow> (error + 'a \<times> reader) \<Rightarrow> avro_value outcome" where
  "lift mk res = (case res of Inl e \<Rightarrow> Some (Inl e) | Inr (x, r') \<Rightarrow> Some (Inr (mk x, r')))"

definition lift_opt :: "('a \<Rightarrow> avro_value) \<Rightarrow> 'a outcome \<Rightarrow> avro_value outcome" where
  "lift_opt mk res = map_option (map_sum id (map_prod mk id)) res"

primrec read_data :: "nat \<Rightarrow> schema \<Rightarrow> reader \<Rightarrow> avro_value outcome" where
  "read_data 0 writer_schema r = None"
| "read_data (Suc fuel) writer_schema r =
     (case writer_schema of
        SNull \<Rightarrow> Some (Inr (VNone, r))
      | SBoolean \<Rightarrow> lift VBool (read_boolean r)
      | SString \<Rightarrow> lift VStr (read_utf8 r)
      | SInt \<Rightarrow> lift VInt (read_int r)
      | SLong \<Rightarrow> lift VInt (read_long r)
      | SFloat \<Rightarrow> lift VFloat (read_float r)
      | SDouble \<Rightarrow> lift VFloat (read_double r)
      | SBytes \<Rightarrow> lift VBytes (read_bytes r)
      | SFixed n \<Rightarrow> lift VBytes (read_fixed n r)
      | SEnum symbols \<Rightarrow> lift (VStr \<circ> str) (read_enum symbols r)
      | SArray items \<Rightarrow> lift_opt VList (read_array fuel (read_data fuel items) r)
      | SMap values \<Rightarrow> lift_opt VDict (read_map fuel (read_data fuel values) r)
      | SUnion schemas \<Rightarrow> read_union (read_data fuel) schemas r
      | SRecord field_list \<Rightarrow> lift_opt VDict (read_record (read_data fuel) field_list r)
      | SOther t \<Rightarrow> Some (Inl AvroException))"


type_synonym skipped = "(error + reader) option"

fun skip_array_for :: "(reader \<Rightarrow> skipped) \<Rightarrow> nat \<Rightarrow> reader \<Rightarrow> skipped" where
  "skip_array_for sk 0 r = Some (Inr r)"
| "skip_array_for sk (Suc k) r =
     (case sk r of None \<Rightarrow> None
      | Some (Inl e) \<Rightarrow> Some (Inl e)
      | Some (Inr r') \<Rightarrow> skip_array_for sk k r')"

fun skip_array_while :: "nat \<Rightarrow> (reader \<Rightarrow> skipped) \<Rightarrow> int \<Rightarrow> reader \<Rightarrow> skipped" where
  "skip_array_while 0 sk block_count r = None"
| "skip_array_while (Suc fuel) sk block_count r =
     (if block_count \<noteq> 0 then
        (case (if block_count < 0
               then (case read_long r of Inl e \<Rightarrow> Some (Inl e)
                     | Inr (block_size, r1) \<Rightarrow> Some (skip r1 block_size))
               else skip_array_for sk (nat block_count) r) of
           None \<Rightarrow> None
         | Some (Inl e) \<Rightarrow> Some (Inl e)
         | Some (Inr r2) \<Rightarrow>
             (case read_long r2 of Inl e \<Rightarrow> Some (Inl e)
              | Inr (block_count2, r3) \<Rightarrow> skip_array_while fuel sk block_count2 r3))
      else Some (Inr r))"

definition skip_array :: "nat \<Rightarrow> (reader \<Rightarrow> skipped) \<Rightarrow> reader \<Rightarrow> skipped" where
  "skip_array fuel sk r =
     (case read_long r of Inl e \<Rightarrow> Some (Inl e)
      | Inr (block_count, r1) \<Rightarrow> skip_array_while fuel sk block_count r1)"

fun skip_map_for :: "(reader \<Rightarrow> skipped) \<Rightarrow> nat \<Rightarrow> reader \<Rightarrow> skipped" where
  "skip_map_for sk 0 r = Some (Inr r)"
| "skip_map_for sk (Suc k) r =
     (case skip_utf8 r of Inl e \<Rightarrow> Some (Inl e)
      | Inr r1 \<Rightarrow>
          (case sk r1 of None \<Rightarrow> None
           | Some (Inl e) \<Rightarrow> Some (Inl e)
           | Some (Inr r2) \<Rightarrow> skip_map_for sk k r2))"

fun skip_map_while :: "nat \<Rightarrow> (reader \<Rightarrow> skipped) \<Rightarrow> int \<Rightarrow> reader \<Rightarrow> skipped" where
  "skip_map_while 0 sk block_count r = None"
| "skip_map_while (Suc fuel) sk block_count r =
     (if block_count \<noteq> 0 then
        (case (if block_count < 0
               then (case read_long r of Inl e \<Rightarrow> Some (Inl e)
                     | Inr (block_size, r1) \<Rightarrow> Some (skip r1 block_size))
               else skip_map_for sk (nat block_count) r) of
           None \<Rightarrow> None
         | Some (Inl e) \<Rightarrow> Some (Inl e)
         | Some (Inr r2) \<Rightarrow>
             (case read_long r2 of Inl e \<Rightarrow> Some (Inl e)
              | Inr (block_count2, r3) \<Rightarrow> skip_map_while fuel sk block_count2 r3))
      else Some (Inr r))"

definition skip_map :: "nat \<Rightarrow> (reader \<Rightarrow> skipped) \<Rightarrow> reader \<Rightarrow> skipped" where
  "skip_map fuel sk r =
     (case read_long r of Inl e \<Rightarrow> Some (Inl e)
      | Inr (block_count, r1) \<Rightarrow> skip_map_while fuel sk block_count r1)"

definition skip_union :: "(schema \<Rightarrow> reader \<Rightarrow> skipped) \<Rightarrow> schema list \<Rightarrow> reader \<Rightarrow> skipped" where
  "skip_union sk schemas r =
     (case read_long r of Inl e \<Rightarrow> Some (Inl e)
      | Inr (index_of_schema, r') \<Rightarrow>
          if index_of_schema \<ge> int (length schemas) then Some (Inl SchemaResolutionException)
          else (case getitem schemas index_of_schema of Inl e \<Rightarrow> Some (Inl e)
                | Inr selected \<Rightarrow> sk selected r'))"

fun skip_record ::
  "(schema \<Rightarrow> reader \<Rightarrow> skipped) \<Rightarrow> (string \<times> schema) list \<Rightarrow> reader \<Rightarrow> skipped" where
  "skip_record sk [] r = Some (Inr r)"
| "skip_record sk ((name, field_type) # field_list) r =
     (case sk field_type r of None \<Rightarrow> None
      | Some (Inl e) \<Rightarrow> Some (Inl e)
      | Some (Inr r') \<Rightarrow> skip_record sk field_list r')"

primrec skip_data :: "nat \<Rightarrow> schema \<Rightarrow> reader \<Rightarrow> skipped" where
  "skip_data 0 writer_schema r = None"
| "skip_data (Suc fuel) writer_schema r =
     (case writer_schema of
        SNull \<Rightarrow> Some (skip_null r)
      | SBoolean \<Rightarrow> Some (skip_boolean r)
      | SString \<Rightarrow> Some (skip_utf8 r)
      | SInt \<Rightarrow> Some (skip_int r)
      | SLong \<Rightarrow> Some (skip_long r)
      | SFloat \<Rightarrow> Some (skip_float r)
      | SDouble \<Rightarrow> Some (skip_double r)
      | SBytes \<Rightarrow> Some (skip_bytes r)
      | SFixed n \<Rightarrow> Some (skip_fixed n r)
      | SEnum symbols \<Rightarrow> Some (skip_enum r)
      | SArray items \<Rightarrow> skip_array fuel (skip_data fuel items) r
      | SMap values \<Rightarrow> skip_map fuel (skip_data fuel values) r
      | SUnion schemas \<Rightarrow> skip_union (skip_data fuel) schemas r
      | SRecord field_list \<Rightarrow> skip_record (skip_data fuel) field_list r
      | SOther t \<Rightarrow> Some (Inl AvroException))"

subsection \<open>Reference notions for the wire format\<close>

fun accum :: "byte list \<Rightarrow> int" where
  "accum [] = 0"
| "accum (b # bs) = (uint b AND 0x7F) OR push_bit 7 (accum bs)"

definition zigzag :: "int \<Rightarrow> int" where
  "zigzag v = (if 0 \<le> v then 2 * v else - 2 * v - 1)"

subsection \<open>Well-formed encodings\<close>

text \<open>
  The wire format, as the comments of \<open>avro_io.py\<close> describe it. \<open>enc s bs\<close> says that the
  bytes \<open>bs\<close> are a well-formed encoding of a value of schema \<open>s\<close>: a boolean is one
  byte, 0 or 1; an int or long is a varint; a float is 4 bytes and a double 8; bytes
  and strings are a long length followed by that many bytes (valid UTF-8 for a string);
  a fixed is as many bytes as the schema declares; an enum is the position of a symbol;
  arrays and maps are blocks, each a long count and that many items, a negative count
  being followed by the long size in bytes of the block's items, and a block of
  count zero ends them; a union is the position of a branch and a value of that
  branch; a record is its fields in order.
\<close>

inductive varint :: "byte list \<Rightarrow> int \<Rightarrow> bool" where
  "\<forall>c \<in> set cs. c AND 0x80 \<noteq> 0 \<Longrightarrow> l AND 0x80 = 0 \<Longrightarrow>
   n = drop_bit 1 (accum (cs @ [l])) XOR - (accum (cs @ [l]) AND 1) \<Longrightarrow>
   varint (cs @ [l]) n"

inductive utf8_string :: "byte list \<Rightarrow> bool" where
  "varint l (int (length payload)) \<Longrightarrow> utf8_decode payload \<noteq> None \<Longrightarrow>
   utf8_string (l @ payload)"

inductive enc_items :: "(byte list \<Rightarrow> bool) \<Rightarrow> nat \<Rightarrow> byte list \<Rightarrow> bool"
  for P :: "byte list \<Rightarrow> bool" where
  "enc_items P 0 []"
| "P b \<Longrightarrow> enc_items P n bs \<Longrightarrow> enc_items P (Suc n) (b @ bs)"

inductive enc_blocks :: "(byte list \<Rightarrow> bool) \<Rightarrow> byte list \<Rightarrow> bool"
  for P :: "byte list \<Rightarrow> bool" where
  "varint z 0 \<Longrightarrow> enc_blocks P z"
| "varint c n \<Longrightarrow> 0 < n \<Longrightarrow> enc_items P (nat n) body \<Longrightarrow> enc_blocks P tail \<Longrightarrow>
   enc_blocks P (c @ body @ tail)"
| "varint c n \<Longrightarrow> n < 0 \<Longrightarrow> varint block_size (int (length body)) \<Longrightarrow>
   enc_items P (nat (- n)) body \<Longrightarrow> enc_blocks P tail \<Longrightarrow>
   enc_blocks P (c @ block_size @ body @ tail)"

inductive enc_entry :: "(byte list \<Rightarrow> bool) \<Rightarrow> byte list \<Rightarrow> bool"
  for P :: "byte list \<Rightarrow> bool" where
  "utf8_string k \<Longrightarrow> P v \<Longrightarrow> enc_entry P (k @ v)"

lemma enc_items_mono [mono]:
  "(\<And>b. P b \<longrightarrow> Q b) \<Longrightarrow> enc_items P n bs \<longrightarrow> enc_items Q n bs"
proof
  assume pq: "\<And>b. P b \<longrightarrow> Q b" and "enc_items P n bs"
  from this(2) show "enc_items Q n bs"
    by (induction rule: enc_items.induct) (auto intro: enc_items.intros simp: pq)
qed

lemma enc_blocks_mono [mono]:
  "(\<And>b. P b \<longrightarrow> Q b) \<Longrightarrow> enc_blocks P bs \<longrightarrow> enc_blocks Q bs"
proof
  assume pq: "\<And>b. P b \<longrightarrow> Q b" and "enc_blocks P bs"
  from this(2) show "enc_blocks Q bs"
  proof (induction rule: enc_blocks.induct)
    case (1 z)
    then show ?case by (rule enc_blocks.intros(1))
  next
    case (2 c n body tail)
    from 2(3) have "enc_items Q (nat n) body" using enc_items_mono[of P Q] pq by blast
    with 2 show ?case by (intro enc_blocks.intros(2))
  next
    case (3 c n block_size body tail)
    from 3(4) have "enc_items Q (nat (- n)) body" using enc_items_mono[of P Q] pq by blast
    with 3 show ?case by (intro enc_blocks.intros(3))
  qed
qed

lemma enc_entry_mono [mono]:
  "(\<And>b. P b \<longrightarrow> Q b) \<Longrightarrow> enc_entry P bs \<longrightarrow> enc_entry Q bs"
  by (auto elim!: enc_entry.cases intro: enc_entry.intros)

inductive enc :: "schema \<Rightarrow> byte list \<Rightarrow> bool"
  and enc_fields :: "(string \<times> schema) list \<Rightarrow> byte list \<Rightarrow> bool" where
  enc_null: "enc SNull []"
| enc_boolean: "b = 0 \<or> b = 1 \<Longrightarrow> enc SBoolean [b]"
| enc_string: "utf8_string bs \<Longrightarrow> enc SString bs"
| enc_int: "varint bs n \<Longrightarrow> enc SInt bs"
| enc_long: "varint bs n \<Longrightarrow> enc SLong bs"
| enc_float: "length bs = 4 \<Longrightarrow> enc SFloat bs"
| enc_double: "length bs = 8 \<Longrightarrow> enc SDouble bs"
| enc_bytes: "varint l (int (length payload)) \<Longrightarrow> enc SBytes (l @ payload)"
| enc_fixed: "enc (SFixed (int (length bs))) bs"
| enc_enum: "varint bs i \<Longrightarrow> 0 \<le> i \<Longrightarrow> i < int (length symbols) \<Longrightarrow> enc (SEnum symbols) bs"
| enc_array: "enc_blocks (enc items) bs \<Longrightarrow> enc (SArray items) bs"
| enc_map: "enc_blocks (enc_entry (enc vals)) bs \<Longrightarrow> enc (SMap vals) bs"
| enc_union: "varint ix i \<Longrightarrow> 0 \<le> i \<Longrightarrow> i < int (length schemas) \<Longrightarrow>
              enc (schemas ! nat i) body \<Longrightarrow> enc (SUnion schemas) (ix @ body)"
| enc_record: "enc_fields field_list bs \<Longrightarrow> enc (SRecord field_list) bs"
| enc_fields_nil: "enc_fields [] []"
| enc_fields_cons: "enc s b \<Longrightarrow> enc_fields field_list bs \<Longrightarrow>
                    enc_fields ((name, s) # field_list) (b @ bs)"

section \<open>Delete/recover polling method\<close>

text \<open>
  Modelled from the spec: the polling method itself
  (\<open>azure/keyvault/secrets/_shared/_polling_async.py\<close>, class
  \<open>AsyncDeleteRecoverPollingMethod\<close>) is not among the source files; only its tests and
  its construction in \<open>_client.py\<close> are. The definitions below follow section 4.4 of the
  specification: \<open>run\<close> returns at once when the method is finished; otherwise it invokes
  the command; a not-found error means "keep polling": sleep the configured interval and
  retry; any other exception propagates; a command that returns sets \<open>finished\<close>. The
  resource given at construction is what \<open>resource()\<close> returns throughout (the tests
  \<open>test_run_idempotence\<close> and \<open>test_final_resource\<close> read it back unchanged after \<open>run\<close>).

  The command is a zero-argument callable with state of its own: \<open>command k\<close> is the
  outcome of its invocation number \<open>k\<close> (counted from 0). The fields \<open>calls\<close> and
  \<open>sleeps\<close> record what \<open>run\<close> did: the number of invocations of the command, and the
  intervals slept, in order.
\<close>

datatype command_outcome = Returns | ResourceNotFoundError | OtherException

record 'r polling_method =
  resource :: 'r
  finished :: bool
  interval :: nat
  calls :: nat
  sleeps :: "nat list"

datatype 'r run_outcome = Returned "'r polling_method" | Propagated "'r polling_method"

partial_function (option) run ::
  "(nat \<Rightarrow> command_outcome) \<Rightarrow> 'r polling_method \<Rightarrow> 'r run_outcome option" where
  "run command p =
     (if finished p then Some (Returned p)
      else (case command (calls p) of
              Returns \<Rightarrow> Some (Returned (p\<lparr>finished := True, calls := calls p + 1\<rparr>))
            | ResourceNotFoundError \<Rightarrow>
                run command (p\<lparr>calls := calls p + 1, sleeps := sleeps p @ [interval p]\<rparr>)
            | OtherException \<Rightarrow> Some (Propagated (p\<lparr>calls := calls p + 1\<rparr>))))"

fun run_times ::
  "(nat \<Rightarrow> command_outcome) \<Rightarrow> nat \<Rightarrow> 'r polling_method \<Rightarrow> 'r run_outcome option" where
  "run_times command 0 p = Some (Returned p)"
| "run_times command (Suc n) p =
     (case run command p of
        Some (Returned p') \<Rightarrow> run_times command n p'
      | other \<Rightarrow> other)"

section \<open>Distributed tracing policy (\_distributed\_tracing.py)\<close>

text \<open>
  The policy talks to collaborators that are not part of the repository: the global
  settings, the tracing plugin's span class, the OpenTelemetry tracer and Python's
  \<open>urllib.parse\<close>. They are the fields of \<open>env\<close>; a call that can raise returns
  \<open>exn + _\<close>, where \<open>exn\<close> stands for an instance of \<open>Exception\<close>. Dictionaries are
  association lists in insertion order, updated with \<open>AList.update\<close>. A span records
  its attributes and how often it was closed (\<open>end()\<close>, \<open>finish()\<close> or \<open>__exit__\<close>).
  Mutations made before an exception is raised persist, so every function returns the
  state it reached together with the exception, if any.
\<close>

datatype exn = Exn string

datatype attr_value = AStr string | AInt int

type_synonym attrs = "(string \<times> attr_value) list"

record exception_type =
  exc_module :: string
  exc_qualname :: string

record span =
  sp_name :: string
  span_attributes :: attrs
  has_set_http_attributes :: bool
  closed :: nat
  exited_with :: "exception_type option option"

record http_request =
  http_method :: string
  url :: string
  headers :: "(string \<times> string) list"

record http_response =
  status_code :: int
  response_headers :: "(string \<times> string) list"

record tracing_options =
  enabled :: "bool option"
  attributes :: "attrs option"

record request_options =
  opt_tracing_options :: "tracing_options option"
  opt_network_span_namer :: "(http_request \<Rightarrow> exn + string) option"
  opt_tracing_attributes :: "attrs option"

record pipeline_context =
  options :: request_options
  tracing_context :: "span option"
  suppression_token :: "nat option"
  retry_count :: "int option"

record pipeline_request =
  request :: http_request
  ctx :: pipeline_context

record state =
  pipeline :: pipeline_request
  warnings :: "string list"
  detached :: "nat list"

record parsed_url =
  hostname :: "string option"
  port_text :: "string option"

record env =
  settings_tracing_enabled :: "exn + bool"
  settings_tracing_implementation :: "exn + bool"
  span_impl_type :: "string \<Rightarrow> exn + span"
  span_add_attribute :: "span \<Rightarrow> string \<Rightarrow> attr_value \<Rightarrow> exn + span"
  span_to_header :: "span \<Rightarrow> exn + (string \<times> string) list"
  span_set_http_attributes :: "span \<Rightarrow> http_request \<Rightarrow> http_response option \<Rightarrow> exn + span"
  get_tracer :: "exn + bool"
  tracer_start_span :: "string \<Rightarrow> attrs \<Rightarrow> exn + span"
  tracer_get_trace_context :: "span \<Rightarrow> exn + (string \<times> string) list"
  tracer_suppress_auto_http_instrumentation :: "exn + nat"
  urlparse :: "string \<Rightarrow> exn + parsed_url"

record policy =
  policy_network_span_namer :: "http_request \<Rightarrow> exn + string"
  policy_tracing_attributes :: attrs

definition default_network_span_namer :: "http_request \<Rightarrow> exn + string" where
  "default_network_span_namer http_request = Inr (http_method http_request)"

definition dict_update :: "('k \<times> 'v) list \<Rightarrow> ('k \<times> 'v) list \<Rightarrow> ('k \<times> 'v) list" where
  "dict_update d new = fold (\<lambda>(k, v). AList.update k v) new d"

definition dict_get :: "('k \<times> 'v) list \<Rightarrow> 'k \<Rightarrow> 'v option" where
  "dict_get d k = map_of d k"

fun str_nat :: "nat \<Rightarrow> string" where
  "str_nat n =
     (if n < 10 then [char_of (48 + n)]
      else str_nat (n div 10) @ [char_of (48 + n mod 10)])"

definition str_int :: "int \<Rightarrow> string" where
  "str_int i = (if i < 0 then CHR ''-'' # str_nat (nat (- i)) else str_nat (nat i))"

definition isdigit :: "string \<Rightarrow> bool" where
  "isdigit s = (s \<noteq> [] \<and> list_all (\<lambda>c. 48 \<le> (of_char c :: nat) \<and> (of_char c :: nat) \<le> 57) s)"

definition int_of_digits :: "string \<Rightarrow> nat" where
  "int_of_digits s = foldl (\<lambda>n c. 10 * n + ((of_char c :: nat) - 48)) 0 s"

definition port :: "parsed_url \<Rightarrow> exn + nat option" where
  "port u =
     (case port_text u of
        None \<Rightarrow> Inr None
      | Some p \<Rightarrow>
          if isdigit p then
            (if int_of_digits p \<le> 65535 then Inr (Some (int_of_digits p))
             else Inl (Exn ''ValueError''))
          else Inl (Exn ''ValueError''))"

definition map_options :: "(request_options \<Rightarrow> request_options) \<Rightarrow> state \<Rightarrow> state" where
  "map_options f s =
     s\<lparr>pipeline := (pipeline s)\<lparr>ctx := (ctx (pipeline s))\<lparr>options := f (options (ctx (pipeline s)))\<rparr>\<rparr>\<rparr>"

definition update_headers :: "(string \<times> string) list \<Rightarrow> state \<Rightarrow> state" where
  "update_headers new s =
     s\<lparr>pipeline := (pipeline s)\<lparr>request :=
         (request (pipeline s))\<lparr>headers := dict_update (headers (request (pipeline s))) new\<rparr>\<rparr>\<rparr>"

definition set_tracing_context :: "span \<Rightarrow> state \<Rightarrow> state" where
  "set_tracing_context sp s =
     s\<lparr>pipeline := (pipeline s)\<lparr>ctx := (ctx (pipeline s))\<lparr>tracing_context := Some sp\<rparr>\<rparr>\<rparr>"

definition set_suppression_token :: "nat \<Rightarrow> state \<Rightarrow> state" where
  "set_suppression_token token s =
     s\<lparr>pipeline := (pipeline s)\<lparr>ctx := (ctx (pipeline s))\<lparr>suppression_token := Some token\<rparr>\<rparr>\<rparr>"

definition warning :: "string \<Rightarrow> state \<Rightarrow> state" where
  "warning msg s = s\<lparr>warnings := warnings s @ [msg]\<rparr>"

fun add_attributes :: "env \<Rightarrow> span \<Rightarrow> attrs \<Rightarrow> exn option \<times> span" where
  "add_attributes env sp [] = (None, sp)"
| "add_attributes env sp ((attr, v) # rest) =
     (case span_add_attribute env sp attr v of
        Inl e \<Rightarrow> (Some e, sp)
      | Inr sp' \<Rightarrow> add_attributes env sp' rest)"

definition on_request_plugin :: "env \<Rightarrow> state \<Rightarrow> string \<Rightarrow> attrs \<Rightarrow> exn option \<times> state" where
  "on_request_plugin env s span_name span_attrs =
     (case span_impl_type env span_name of
        Inl e \<Rightarrow> (Some e, s)
      | Inr sp \<Rightarrow>
          (case add_attributes env sp span_attrs of
             (Some e, sp1) \<Rightarrow> (Some e, s)
           | (None, sp1) \<Rightarrow>
               (case span_to_header env sp1 of
                  Inl e \<Rightarrow> (Some e, s)
                | Inr hdrs \<Rightarrow> (None, set_tracing_context sp1 (update_headers hdrs s)))))"

definition on_request_native :: "env \<Rightarrow> state \<Rightarrow> string \<Rightarrow> attrs \<Rightarrow> exn option \<times> state" where
  "on_request_native env s span_name span_attrs =
     (case get_tracer env of
        Inl e \<Rightarrow> (Some e, s)
      | Inr tracer \<Rightarrow>
          if \<not> tracer then
            (None, warning (''Tracing is enabled, but not able to get an OpenTelemetry tracer. ''
                            @ ''Please ensure that `opentelemetry-api` is installed.'') s)
          else
            (case tracer_start_span env span_name span_attrs of
               Inl e \<Rightarrow> (Some e, s)
             | Inr otel_span \<Rightarrow>
                 (case tracer_get_trace_context env otel_span of
                    Inl e \<Rightarrow> (Some e, s)
                  | Inr trace_context_headers \<Rightarrow>
                      (let s1 = set_tracing_context otel_span (update_headers trace_context_headers s)
                       in case tracer_suppress_auto_http_instrumentation env of
                            Inl e \<Rightarrow> (Some e, s1)
                          | Inr token \<Rightarrow> (None, set_suppression_token token s1)))))"

definition on_request_try :: "env \<Rightarrow> policy \<Rightarrow> state \<Rightarrow> exn option \<times> state" where
  "on_request_try env pol s =
     (let topts = (case opt_tracing_options (options (ctx (pipeline s))) of
                     None \<Rightarrow> \<lparr>enabled = None, attributes = None\<rparr>
                   | Some t \<Rightarrow> t);
          s1 = map_options (\<lambda>opts. opts\<lparr>opt_tracing_options := None\<rparr>) s
      in case settings_tracing_enabled env of
           Inl e \<Rightarrow> (Some e, s1)
         | Inr tracing_enabled \<Rightarrow>
             (let user_enabled = enabled topts in
              if user_enabled = Some False then (None, s1)
              else if \<not> tracing_enabled \<and> user_enabled = None then (None, s1)
              else
                (case settings_tracing_implementation env of
                   Inl e \<Rightarrow> (Some e, s1)
                 | Inr span_impl \<Rightarrow>
                     (let namer = (case opt_network_span_namer (options (ctx (pipeline s1))) of
                                     None \<Rightarrow> policy_network_span_namer pol
                                   | Some n \<Rightarrow> n);
                          s2 = map_options (\<lambda>opts. opts\<lparr>opt_network_span_namer := None\<rparr>) s1;
                          tracing_attrs = (case opt_tracing_attributes (options (ctx (pipeline s2))) of
                                             None \<Rightarrow> policy_tracing_attributes pol
                                           | Some a \<Rightarrow> a);
                          s3 = map_options (\<lambda>opts. opts\<lparr>opt_tracing_attributes := None\<rparr>) s2
                      in case namer (request (pipeline s3)) of
                           Inl e \<Rightarrow> (Some e, s3)
                         | Inr span_name \<Rightarrow>
                             (let span_attrs =
                                    dict_update tracing_attrs
                                      (case attributes topts of None \<Rightarrow> [] | Some a \<Rightarrow> a)
                              in if span_impl then on_request_plugin env s3 span_name span_attrs
                                 else on_request_native env s3 span_name span_attrs)))))"

definition on_request :: "env \<Rightarrow> policy \<Rightarrow> state \<Rightarrow> exn option \<times> state" where
  "on_request env pol s =
     (case on_request_try env pol s of
        (Some e, s') \<Rightarrow> (None, warning ''Unable to start network span.'' s')
      | (None, s') \<Rightarrow> (None, s'))"

definition set_attributes :: "span \<Rightarrow> attrs \<Rightarrow> span" where
  "set_attributes sp new = sp\<lparr>span_attributes := dict_update (span_attributes sp) new\<rparr>"

definition set_attribute :: "span \<Rightarrow> string \<Rightarrow> attr_value \<Rightarrow> span" where
  "set_attribute sp k v = sp\<lparr>span_attributes := AList.update k v (span_attributes sp)\<rparr>"

definition span_exit :: "span \<Rightarrow> exception_type option \<Rightarrow> span" where
  "span_exit sp exc_info = sp\<lparr>closed := closed sp + 1, exited_with := Some exc_info\<rparr>"

definition span_end :: "span \<Rightarrow> span" where
  "span_end sp = sp\<lparr>closed := closed sp + 1\<rparr>"

definition span_finish :: "span \<Rightarrow> span" where
  "span_finish sp = sp\<lparr>closed := closed sp + 1\<rparr>"

definition set_http_client_span_attributes ::
  "env \<Rightarrow> span \<Rightarrow> http_request \<Rightarrow> http_response option \<Rightarrow> exn + span" where
  "set_http_client_span_attributes env sp req response =
     (let attributes0 = [(''http.request.method'', AStr (http_method req)),
                         (''url.full'', AStr (url req))]
      in case urlparse env (url req) of
           Inl e \<Rightarrow> Inl e
         | Inr parsed \<Rightarrow>
             (let attributes1 =
                    (case hostname parsed of
                       None \<Rightarrow> attributes0
                     | Some h \<Rightarrow> if h \<noteq> [] then AList.update ''server.address'' (AStr h) attributes0
                                else attributes0)
              in case port parsed of
                   Inl e \<Rightarrow> Inl e
                 | Inr p \<Rightarrow>
                     (let attributes2 =
                            (case p of
                               None \<Rightarrow> attributes1
                             | Some n \<Rightarrow> if n \<noteq> 0
                                         then AList.update ''server.port'' (AInt (int n)) attributes1
                                         else attributes1);
                          attributes3 =
                            (case dict_get (headers req) ''User-Agent'' of
                               None \<Rightarrow> attributes2
                             | Some user_agent \<Rightarrow>
                                 if user_agent \<noteq> []
                                 then AList.update ''user_agent.original'' (AStr user_agent) attributes2
                                 else attributes2);
                          attributes4 =
                            (case response of
                               None \<Rightarrow> attributes3
                             | Some resp \<Rightarrow>
                                 if status_code resp \<noteq> 0 then
                                   (let a = AList.update ''http.response.status_code''
                                              (AInt (status_code resp)) attributes3
                                    in if status_code resp \<ge> 400
                                       then AList.update ''error.type''
                                              (AStr (str_int (status_code resp))) a
                                       else a)
                                 else attributes3)
                      in Inr (set_attributes sp attributes4))))"

definition error_type_of :: "exception_type \<Rightarrow> string" where
  "error_type_of exception_type =
     (let module = (if exc_module exception_type \<noteq> ''builtins'' then exc_module exception_type else [])
      in if module \<noteq> [] then module @ ''.'' @ exc_qualname exception_type
         else exc_qualname exception_type)"

definition end_plugin_span ::
  "env \<Rightarrow> span \<Rightarrow> http_request \<Rightarrow> http_response option \<Rightarrow> attrs
     \<Rightarrow> exception_type option option \<Rightarrow> exn option \<times> span" where
  "end_plugin_span env sp req response attrs exc_info =
     (case span_set_http_attributes env sp req response of
        Inl e \<Rightarrow> (Some e, sp)
      | Inr sp1 \<Rightarrow>
          (case add_attributes env sp1 attrs of
             (Some e, sp2) \<Rightarrow> (Some e, sp2)
           | (None, sp2) \<Rightarrow>
               (case exc_info of
                  Some info \<Rightarrow> (None, span_exit sp2 info)
                | None \<Rightarrow> (None, span_finish sp2))))"

definition end_native_span ::
  "env \<Rightarrow> span \<Rightarrow> http_request \<Rightarrow> http_response option \<Rightarrow> attrs
     \<Rightarrow> exception_type option option \<Rightarrow> exn option \<times> span" where
  "end_native_span env sp req response attrs exc_info =
     (case set_http_client_span_attributes env sp req response of
        Inl e \<Rightarrow> (Some e, sp)
      | Inr sp1 \<Rightarrow>
          (let sp2 = set_attributes sp1 attrs
           in case exc_info of
                Some info \<Rightarrow>
                  (let sp3 = (case info of
                                Some exception_type \<Rightarrow>
                                  set_attribute sp2 ''error.type'' (AStr (error_type_of exception_type))
                              | None \<Rightarrow> sp2)
                   in (None, span_exit sp3 info))
              | None \<Rightarrow> (None, span_end sp2)))"

definition end_span ::
  "env \<Rightarrow> state \<Rightarrow> http_response option \<Rightarrow> exception_type option option \<Rightarrow> exn option \<times> state" where
  "end_span env s response exc_info =
     (case tracing_context (ctx (pipeline s)) of
        None \<Rightarrow> (None, s)
      | Some sp \<Rightarrow>
          (let req = request (pipeline s);
               attributes0 = [];
               attributes1 =
                 (case retry_count (ctx (pipeline s)) of
                    None \<Rightarrow> attributes0
                  | Some n \<Rightarrow> if n \<noteq> 0
                              then AList.update ''http.request.resend_count'' (AInt n) attributes0
                              else attributes0);
               attributes2 =
                 (case dict_get (headers req) ''x-ms-client-request-id'' of
                    None \<Rightarrow> attributes1
                  | Some v \<Rightarrow> if v \<noteq> [] then AList.update ''az.client_request_id'' (AStr v) attributes1
                              else attributes1);
               attributes3 =
                 (case response of
                    None \<Rightarrow> attributes2
                  | Some resp \<Rightarrow>
                      (case dict_get (response_headers resp) ''x-ms-request-id'' of
                         None \<Rightarrow> attributes2
                       | Some v \<Rightarrow> AList.update ''az.service_request_id'' (AStr v) attributes2))
           in case (if has_set_http_attributes sp
                    then end_plugin_span env sp req response attributes3 exc_info
                    else end_native_span env sp req response attributes3 exc_info) of
                (Some e, sp') \<Rightarrow> (Some e, set_tracing_context sp' s)
              | (None, sp') \<Rightarrow>
                  (let s1 = set_tracing_context sp' s
                   in case suppression_token (ctx (pipeline s1)) of
                        None \<Rightarrow> (None, s1)
                      | Some token \<Rightarrow>
                          (case get_tracer env of
                             Inl e \<Rightarrow> (Some e, s1)
                           | Inr tracer \<Rightarrow>
                               if tracer then (None, s1\<lparr>detached := detached s1 @ [token]\<rparr>)
                               else (None, s1)))))"

definition on_response :: "env \<Rightarrow> state \<Rightarrow> http_response \<Rightarrow> exn option \<times> state" where
  "on_response env s response = end_span env s (Some response) None"

definition on_exception :: "env \<Rightarrow> state \<Rightarrow> exception_type option \<Rightarrow> exn option \<times> state" where
  "on_exception env s current_exception = end_span env s None (Some current_exception)"

subsection \<open>A concrete configuration\<close>

text \<open>
  Used to evaluate the policy on concrete requests: tracing is enabled globally, no
  plugin is configured, an OpenTelemetry tracer is available whose \<open>start_span\<close> returns
  a fresh open span, and \<open>urlparse\<close> returns the given host and port text for the
  request's URL.
\<close>

definition example_env :: "parsed_url \<Rightarrow> env" where
  "example_env parsed =
     \<lparr>settings_tracing_enabled = Inr True,
      settings_tracing_implementation = Inr False,
      span_impl_type = (\<lambda>name. Inl (Exn ''TypeError'')),
      span_add_attribute = (\<lambda>sp k v. Inr (sp\<lparr>span_attributes := AList.update k v (span_attributes sp)\<rparr>)),
      span_to_header = (\<lambda>sp. Inr []),
      span_set_http_attributes = (\<lambda>sp req response. Inr sp),
      get_tracer = Inr True,
      tracer_start_span = (\<lambda>name a.
        Inr \<lparr>sp_name = name, span_attributes = a, has_set_http_attributes = False,
             closed = 0, exited_with = None\<rparr>),
      tracer_get_trace_context = (\<lambda>sp. Inr [(''traceparent'', ''00-0af7651916cd43dd8448eb211c80319c-b7ad6b7169203331-01'')]),
      tracer_suppress_auto_http_instrumentation = Inr 1,
      urlparse = (\<lambda>u. Inr parsed)\<rparr>"

definition example_policy :: policy where
  "example_policy =
     \<lparr>policy_network_span_namer = default_network_span_namer, policy_tracing_attributes = []\<rparr>"

definition example_state :: "string \<Rightarrow> state" where
  "example_state u =
     \<lparr>pipeline =
        \<lparr>request = \<lparr>http_method = ''GET'', url = u, headers = []\<rparr>,
         ctx = \<lparr>options = \<lparr>opt_tracing_options = None, opt_network_span_namer = None,
                           opt_tracing_attributes = None\<rparr>,
                tracing_context = None, suppression_token = None, retry_count = None\<rparr>\<rparr>,
      warnings = [], detached = []\<rparr>"

section \<open>Properties of the decoder\<close>

lemma read_ord_next:
  "drop (pos r) (buf r) = b # rest \<Longrightarrow> read_ord r = Inr (uint b, r\<lparr>pos := pos r + 1\<rparr>)"
  by (simp add: read_ord_def read_def reader_read_def ord_def)

lemma drop_next: "drop n xs = b # rest \<Longrightarrow> drop (Suc n) xs = rest"
  by (metis drop_Suc tl_drop list.sel(3))

lemma uint_and_80: "(uint (c::byte) AND 0x80 = 0) = (c AND 0x80 = 0)"
proof -
  have "uint (c AND 0x80) = uint c AND 0x80" by (simp add: uint_and)
  then show ?thesis by (metis uint_0_iff)
qed

lemma read_long_loop_varint:
  "\<forall>c \<in> set cs. c AND 0x80 \<noteq> 0 \<Longrightarrow> l AND 0x80 = 0 \<Longrightarrow>
   drop (pos r) (buf r) = cs @ l # rest \<Longrightarrow> b AND 0x80 \<noteq> 0 \<Longrightarrow>
   read_long_loop r b n shift =
     Inr (n OR push_bit shift (accum (cs @ [l])), r\<lparr>pos := pos r + length cs + 1\<rparr>)"
proof (induction cs arbitrary: r b n shift)
  case Nil
  then show ?case
    apply (subst read_long_loop.simps)
    apply (simp add: read_ord_next)
    apply (subst read_long_loop.simps)
    apply (simp add: uint_and_80)
    done
next
  case (Cons c cs)
  let ?r1 = "r\<lparr>pos := pos r + 1\<rparr>"
  have d: "drop (pos ?r1) (buf ?r1) = cs @ l # rest"
    using Cons.prems(3) drop_next by fastforce
  have cb: "uint c AND 0x80 \<noteq> 0" using Cons.prems(1) by (simp add: uint_and_80)
  have ro: "read_ord r = Inr (uint c, ?r1)" using Cons.prems(3) by (simp add: read_ord_next)
  have "read_long_loop r b n shift =
        read_long_loop ?r1 (uint c) (n OR push_bit shift (uint c AND 0x7F)) (shift + 7)"
    using Cons.prems(4) by (subst read_long_loop.simps) (simp add: ro)
  also have "\<dots> = Inr ((n OR push_bit shift (uint c AND 0x7F)) OR push_bit (shift + 7) (accum (cs @ [l])),
                   ?r1\<lparr>pos := pos ?r1 + length cs + 1\<rparr>)"
    using Cons.prems(1,2) by (intro Cons.IH[OF _ _ d cb]) auto
  also have "(n OR push_bit shift (uint c AND 0x7F)) OR push_bit (shift + 7) (accum (cs @ [l]))
             = n OR push_bit shift (accum ((c # cs) @ [l]))"
    by (simp add: push_bit_or push_bit_push_bit or.assoc add.commute del: push_bit_and)
  finally show ?case by simp
qed

lemma read_long_accum:
  assumes "\<forall>c \<in> set cs. c AND 0x80 \<noteq> 0" and "l AND 0x80 = 0"
    and "drop (pos r) (buf r) = cs @ l # rest"
  shows "read_long r =
           Inr (drop_bit 1 (accum (cs @ [l])) XOR - (accum (cs @ [l]) AND 1),
                r\<lparr>pos := pos r + length cs + 1\<rparr>)"
proof (cases cs)
  case Nil
  then have ro: "read_ord r = Inr (uint l, r\<lparr>pos := pos r + 1\<rparr>)"
    using assms(3) by (simp add: read_ord_next)
  have "read_long_loop (r\<lparr>pos := pos r + 1\<rparr>) (uint l) (uint l AND 0x7F) 7
        = Inr (uint l AND 0x7F, r\<lparr>pos := pos r + 1\<rparr>)"
    using assms(2) by (subst read_long_loop.simps) (simp add: uint_and_80)
  then show ?thesis using Nil ro by (simp add: read_long_def)
next
  case (Cons c cs')
  let ?r1 = "r\<lparr>pos := pos r + 1\<rparr>"
  have ro: "read_ord r = Inr (uint c, ?r1)"
    using assms(3) Cons by (simp add: read_ord_next)
  have d: "drop (pos ?r1) (buf ?r1) = cs' @ l # rest"
    using assms(3) Cons drop_next by fastforce
  have cb: "uint c AND 0x80 \<noteq> 0" using assms(1) Cons by (simp add: uint_and_80)
  have "read_long_loop ?r1 (uint c) (uint c AND 0x7F) 7
        = Inr ((uint c AND 0x7F) OR push_bit 7 (accum (cs' @ [l])), ?r1\<lparr>pos := pos ?r1 + length cs' + 1\<rparr>)"
    using assms(1,2) Cons by (intro read_long_loop_varint[OF _ _ d cb]) auto
  then show ?thesis using Cons ro by (simp add: read_long_def)
qed

lemma accum_nonneg: "0 \<le> accum bs"
  by (induction bs) auto

lemma unzigzag_zigzag: "drop_bit 1 (zigzag v) XOR - (zigzag v AND 1) = v"
proof (cases "0 \<le> v")
  case True
  then show ?thesis by (simp add: zigzag_def drop_bit_eq_div and_one_eq)
next
  case False
  have o: "(- (2 * v) - 1) mod 2 = 1" by presburger
  have d: "(- (2 * v) - 1) div 2 = - v - 1" by presburger
  show ?thesis using False
    by (simp add: zigzag_def drop_bit_eq_div and_one_eq o d not_int_def)
qed

lemma zigzag_unzigzag: "0 \<le> n \<Longrightarrow> zigzag (drop_bit 1 n XOR - (n AND 1)) = n"
proof (cases "even n")
  case True
  assume "0 \<le> n"
  with True show ?thesis
    by (auto simp add: zigzag_def drop_bit_eq_div and_one_eq elim!: evenE)
next
  case False
  assume "0 \<le> n"
  from False have m: "n mod 2 = 1" by presburger
  have "drop_bit 1 n XOR - (n AND 1) = - (n div 2) - 1"
    by (simp add: drop_bit_eq_div and_one_eq m not_int_def)
  then show ?thesis using False \<open>0 \<le> n\<close>
    apply (simp add: zigzag_def) by presburger
qed

text \<open>
  Claim C1. When the bytes at the stream position are a well-formed varint (the bytes
  \<open>cs\<close>, each with the continuation bit \<open>0x80\<close> set, then one byte \<open>l\<close> without it),
  \<open>read_long\<close> consumes exactly these \<open>length cs + 1\<close> bytes and returns
  \<open>(accum >> 1) XOR -(accum & 1)\<close>, where \<open>accum\<close> is the unsigned value that holds the low
  seven bits of each byte, first byte lowest. That result is the integer whose zig-zag
  code is \<open>accum\<close>. \<open>read_int\<close> is the same function: it checks no width.
\<close>

theorem read_long_varint:
  assumes "\<forall>c \<in> set cs. c AND 0x80 \<noteq> 0" and "l AND 0x80 = 0"
    and "drop (pos r) (buf r) = cs @ l # rest"
  shows "read_long r =
           Inr (drop_bit 1 (accum (cs @ [l])) XOR - (accum (cs @ [l]) AND 1),
                r\<lparr>pos := pos r + length cs + 1\<rparr>)
         \<and> read_int r = read_long r
         \<and> 0 \<le> accum (cs @ [l])
         \<and> zigzag (drop_bit 1 (accum (cs @ [l])) XOR - (accum (cs @ [l]) AND 1)) = accum (cs @ [l])"
  using read_long_accum[OF assms] accum_nonneg[of "cs @ [l]"]
    zigzag_unzigzag[of "accum (cs @ [l])"]
  by (simp add: read_int_def)

theorem read_long_varint_witness:
  "read_long \<lparr>buf = [0x81, 0x01, 0xFF], pos = 0\<rparr> = Inr (- 65, \<lparr>buf = [0x81, 0x01, 0xFF], pos = 2\<rparr>)
   \<and> read_int \<lparr>buf = [0x81, 0x01, 0xFF], pos = 0\<rparr> = Inr (- 65, \<lparr>buf = [0x81, 0x01, 0xFF], pos = 2\<rparr>)"
  using read_long_varint[of "[0x81]" "0x01" "\<lparr>buf = [0x81, 0x01, 0xFF], pos = 0\<rparr>" "[0xFF]"]
  by simp

subsection \<open>Enum and union indices\<close>

lemma read_enum_index:
  assumes "read_long r = Inr (i, r')"
  shows "read_enum symbols r =
           (if i \<ge> int (length symbols) then Inl SchemaResolutionException
            else if i < - int (length symbols) then Inl IndexError
            else if i < 0 then Inr (symbols ! nat (int (length symbols) + i), r')
            else Inr (symbols ! nat i, r'))"
  using assms by (simp add: read_enum_def read_int_def getitem_def Let_def add.commute)

lemma read_union_index:
  assumes "read_long r = Inr (i, r')"
  shows "read_union rd schemas r =
           (if i \<ge> int (length schemas) then Some (Inl SchemaResolutionException)
            else if i < - int (length schemas) then Some (Inl IndexError)
            else if i < 0 then rd (schemas ! nat (int (length schemas) + i)) r'
            else rd (schemas ! nat i) r')"
  using assms by (simp add: read_union_def getitem_def Let_def add.commute)

lemma skip_union_index:
  assumes "read_long r = Inr (i, r')"
  shows "skip_union sk schemas r =
           (if i \<ge> int (length schemas) then Some (Inl SchemaResolutionException)
            else if i < - int (length schemas) then Some (Inl IndexError)
            else if i < 0 then sk (schemas ! nat (int (length schemas) + i)) r'
            else sk (schemas ! nat i) r')"
  using assms by (simp add: skip_union_def getitem_def Let_def add.commute)

text \<open>
  Claim C4 (evaluation at the failing inputs). The claim wants every out-of-range index
  to fail with \<open>SchemaResolutionException\<close>. The guard of \<open>read_enum\<close> and \<open>read_union\<close>
  is \<open>index >= len(...)\<close> only, so the decoded index \<open>-1\<close> (the single byte \<open>0x01\<close>)
  passes it and Python's negative indexing returns the last symbol or decodes with the
  last branch, and the decoded index \<open>-3\<close> (the byte \<open>0x05\<close>) on a two-element table
  fails with \<open>IndexError\<close>, not with \<open>SchemaResolutionException\<close>.
\<close>

theorem read_enum_union_negative_index_evaluated:
  "read_data 1 (SEnum [''A'', ''B'']) \<lparr>buf = [0x01], pos = 0\<rparr>
     = Some (Inr (VStr (str ''B''), \<lparr>buf = [0x01], pos = 1\<rparr>))
   \<and> read_data 2 (SUnion [SBoolean, SNull]) \<lparr>buf = [0x01], pos = 0\<rparr>
     = Some (Inr (VNone, \<lparr>buf = [0x01], pos = 1\<rparr>))
   \<and> read_data 1 (SEnum [''A'', ''B'']) \<lparr>buf = [0x05], pos = 0\<rparr> = Some (Inl IndexError)
   \<and> read_data 2 (SUnion [SBoolean, SNull]) \<lparr>buf = [0x05], pos = 0\<rparr> = Some (Inl IndexError)"
  by code_simp

text \<open>
  Claim C10. \<open>read_enum\<close>, \<open>read_union\<close> and \<open>skip_union\<close> reject exactly the decoded
  indices \<open>i\<close> with \<open>i \<ge> n\<close>, where \<open>n\<close> is the number of symbols or branches. A decoded
  index with \<open>-n \<le> i < 0\<close> is not rejected: it selects the element at position \<open>n + i\<close>,
  so \<open>-1\<close> selects the last symbol or branch.
\<close>

theorem index_check_is_upper_bound_only:
  assumes "read_long r = Inr (i, r')"
  shows "(- int (length symbols) \<le> i \<and> i < 0 \<longrightarrow>
            read_enum symbols r = Inr (symbols ! nat (int (length symbols) + i), r'))
       \<and> (- int (length schemas) \<le> i \<and> i < 0 \<longrightarrow>
            read_union rd schemas r = rd (schemas ! nat (int (length schemas) + i)) r'
          \<and> skip_union sk schemas r = sk (schemas ! nat (int (length schemas) + i)) r')
       \<and> ((read_enum symbols r = Inl SchemaResolutionException) = (i \<ge> int (length symbols)))
       \<and> (i \<ge> int (length schemas) \<longrightarrow>
            read_union rd schemas r = Some (Inl SchemaResolutionException)
          \<and> skip_union sk schemas r = Some (Inl SchemaResolutionException))"
  by (simp add: read_enum_index[OF assms] read_union_index[OF assms] skip_union_index[OF assms])

theorem index_check_is_upper_bound_only_witness:
  "read_long \<lparr>buf = [0x01], pos = 0\<rparr> = Inr (- 1, \<lparr>buf = [0x01], pos = 1\<rparr>)
   \<and> read_enum [''A'', ''B''] \<lparr>buf = [0x01], pos = 0\<rparr> = Inr (''B'', \<lparr>buf = [0x01], pos = 1\<rparr>)
   \<and> read_union (read_data 1) [SBoolean, SNull] \<lparr>buf = [0x01], pos = 0\<rparr>
       = Some (Inr (VNone, \<lparr>buf = [0x01], pos = 1\<rparr>))
   \<and> skip_union (skip_data 1) [SBoolean, SNull] \<lparr>buf = [0x01], pos = 0\<rparr>
       = Some (Inr \<lparr>buf = [0x01], pos = 1\<rparr>)
   \<and> read_long \<lparr>buf = [0x04], pos = 0\<rparr> = Inr (2, \<lparr>buf = [0x04], pos = 1\<rparr>)
   \<and> read_enum [''A'', ''B''] \<lparr>buf = [0x04], pos = 0\<rparr> = Inl SchemaResolutionException
   \<and> read_union (read_data 1) [SBoolean, SNull] \<lparr>buf = [0x04], pos = 0\<rparr>
       = Some (Inl SchemaResolutionException)"
proof -
  have neg: "read_long \<lparr>buf = [0x01], pos = 0\<rparr> = Inr (- 1, \<lparr>buf = [0x01], pos = 1\<rparr>)"
    by code_simp
  have big: "read_long \<lparr>buf = [0x04], pos = 0\<rparr> = Inr (2, \<lparr>buf = [0x04], pos = 1\<rparr>)"
    by code_simp
  show ?thesis
    using neg big
      index_check_is_upper_bound_only[OF neg, of "[''A'', ''B'']" "[SBoolean, SNull]"
        "read_data 1" "skip_data 1"]
      index_check_is_upper_bound_only[OF big, of "[''A'', ''B'']" "[SBoolean, SNull]"
        "read_data 1" "skip_data 1"]
    by (simp add: skip_null_def)
qed

subsection \<open>Blocks of arrays and maps\<close>









subsection \<open>Reading and skipping well-formed encodings\<close>

lemma drop_append_tail:
  "drop n xs = bs @ rest \<Longrightarrow> drop (n + length bs) xs = rest"
  by (metis add.commute append_eq_conv_conj drop_drop)

lemma read_exact:
  assumes "drop (pos r) (buf r) = bs @ rest"
  shows "read r (int (length bs)) = Inr (bs, r\<lparr>pos := pos r + length bs\<rparr>)"
proof -
  have "take (length bs) (drop (pos r) (buf r)) = bs" using assms by simp
  then show ?thesis by (auto simp: read_def reader_read_def Let_def)
qed

lemma skip_exact: "skip r (int n) = Inr (r\<lparr>pos := pos r + n\<rparr>)"
  by (simp add: skip_def reader_seek_def reader_tell_def nat_add_distrib)

lemma skip_long_loop_varint:
  "\<forall>c \<in> set cs. c AND 0x80 \<noteq> 0 \<Longrightarrow> l AND 0x80 = 0 \<Longrightarrow>
   drop (pos r) (buf r) = cs @ l # rest \<Longrightarrow> b AND 0x80 \<noteq> 0 \<Longrightarrow>
   skip_long_loop r b = Inr (r\<lparr>pos := pos r + length cs + 1\<rparr>)"
proof (induction cs arbitrary: r b)
  case Nil
  then show ?case
    apply (subst skip_long_loop.simps)
    apply (simp add: read_ord_next)
    apply (subst skip_long_loop.simps)
    apply (simp add: uint_and_80)
    done
next
  case (Cons c cs)
  let ?r1 = "r\<lparr>pos := pos r + 1\<rparr>"
  have d: "drop (pos ?r1) (buf ?r1) = cs @ l # rest"
    using Cons.prems(3) drop_next by fastforce
  have cb: "uint c AND 0x80 \<noteq> 0" using Cons.prems(1) by (simp add: uint_and_80)
  have ro: "read_ord r = Inr (uint c, ?r1)" using Cons.prems(3) by (simp add: read_ord_next)
  have "skip_long_loop r b = skip_long_loop ?r1 (uint c)"
    using Cons.prems(4) by (subst skip_long_loop.simps) (simp add: ro)
  also have "\<dots> = Inr (?r1\<lparr>pos := pos ?r1 + length cs + 1\<rparr>)"
    using Cons.prems(1,2) by (intro Cons.IH[OF _ _ d cb]) auto
  finally show ?case by simp
qed

lemma skip_long_accum:
  assumes "\<forall>c \<in> set cs. c AND 0x80 \<noteq> 0" and "l AND 0x80 = 0"
    and "drop (pos r) (buf r) = cs @ l # rest"
  shows "skip_long r = Inr (r\<lparr>pos := pos r + length cs + 1\<rparr>)"
proof (cases cs)
  case Nil
  then have ro: "read_ord r = Inr (uint l, r\<lparr>pos := pos r + 1\<rparr>)"
    using assms(3) by (simp add: read_ord_next)
  have "skip_long_loop (r\<lparr>pos := pos r + 1\<rparr>) (uint l) = Inr (r\<lparr>pos := pos r + 1\<rparr>)"
    using assms(2) by (subst skip_long_loop.simps) (simp add: uint_and_80)
  then show ?thesis using Nil ro by (simp add: skip_long_def)
next
  case (Cons c cs')
  let ?r1 = "r\<lparr>pos := pos r + 1\<rparr>"
  have ro: "read_ord r = Inr (uint c, ?r1)"
    using assms(3) Cons by (simp add: read_ord_next)
  have d: "drop (pos ?r1) (buf ?r1) = cs' @ l # rest"
    using assms(3) Cons drop_next by fastforce
  have cb: "uint c AND 0x80 \<noteq> 0" using assms(1) Cons by (simp add: uint_and_80)
  have "skip_long_loop ?r1 (uint c) = Inr (?r1\<lparr>pos := pos ?r1 + length cs' + 1\<rparr>)"
    using assms(1,2) Cons by (intro skip_long_loop_varint[OF _ _ d cb]) auto
  then show ?thesis using Cons ro by (simp add: skip_long_def)
qed

lemma varint_read_long:
  assumes "varint bs n" and "drop (pos r) (buf r) = bs @ rest"
  shows "read_long r = Inr (n, r\<lparr>pos := pos r + length bs\<rparr>)
       \<and> skip_long r = Inr (r\<lparr>pos := pos r + length bs\<rparr>)"
  using assms
proof (cases rule: varint.cases)
  case (1 cs l)
  then have d: "drop (pos r) (buf r) = cs @ l # rest" using assms(2) by simp
  show ?thesis
    using read_long_accum[OF 1(2,3) d] skip_long_accum[OF 1(2,3) d] 1(1,4) by simp
qed

lemma read_bytes_exact:
  assumes "varint l (int (length payload))" and "drop (pos r) (buf r) = (l @ payload) @ rest"
  shows "read_bytes r = Inr (payload, r\<lparr>pos := pos r + length (l @ payload)\<rparr>)
       \<and> skip_bytes r = Inr (r\<lparr>pos := pos r + length (l @ payload)\<rparr>)"
proof -
  let ?r1 = "r\<lparr>pos := pos r + length l\<rparr>"
  have d: "drop (pos r) (buf r) = l @ (payload @ rest)" using assms(2) by simp
  have rl: "read_long r = Inr (int (length payload), ?r1)"
    using varint_read_long[OF assms(1) d] by simp
  have d1: "drop (pos ?r1) (buf ?r1) = payload @ rest"
    using drop_append_tail[OF d] by simp
  show ?thesis
    using rl read_exact[OF d1] skip_exact[of ?r1 "length payload"]
    by (simp add: read_bytes_def skip_bytes_def add.assoc)
qed

lemma utf8_string_exact:
  assumes "utf8_string bs" and "drop (pos r) (buf r) = bs @ rest"
  shows "\<exists>s. read_utf8 r = Inr (s, r\<lparr>pos := pos r + length bs\<rparr>)
           \<and> skip_utf8 r = Inr (r\<lparr>pos := pos r + length bs\<rparr>)"
  using assms
proof (cases rule: utf8_string.cases)
  case (1 l payload)
  then obtain s where s: "utf8_decode payload = Some s" by auto
  have d: "drop (pos r) (buf r) = (l @ payload) @ rest" using assms(2) 1(1) by simp
  show ?thesis
    using read_bytes_exact[OF 1(2) d] s 1(1) by (simp add: read_utf8_def skip_utf8_def)
qed

lemma read_array_for_items:
  fixes rd :: "nat \<Rightarrow> reader \<Rightarrow> avro_value outcome" and sk :: "nat \<Rightarrow> reader \<Rightarrow> skipped"
  assumes good: "\<forall>b r rest. Q b \<longrightarrow> drop (pos r) (buf r) = b @ rest \<longrightarrow>
            (\<exists>f0 v. \<forall>f\<ge>f0. rd f r = Some (Inr (v, r\<lparr>pos := pos r + length b\<rparr>))
                          \<and> sk f r = Some (Inr (r\<lparr>pos := pos r + length b\<rparr>)))"
  shows "enc_items Q n bs \<Longrightarrow> drop (pos r) (buf r) = bs @ rest \<Longrightarrow>
         \<exists>f0 vs. \<forall>f\<ge>f0.
            read_array_for (rd f) n acc r = Some (Inr (acc @ vs, r\<lparr>pos := pos r + length bs\<rparr>))
          \<and> skip_array_for (sk f) n r = Some (Inr (r\<lparr>pos := pos r + length bs\<rparr>))"
proof (induction arbitrary: r rest acc rule: enc_items.induct)
  case 1
  then show ?case by simp
next
  case (2 b n bs)
  let ?r1 = "r\<lparr>pos := pos r + length b\<rparr>"
  have d: "drop (pos r) (buf r) = b @ (bs @ rest)" using 2(4) by simp
  obtain f1 v where f1: "\<And>f. f \<ge> f1 \<Longrightarrow> rd f r = Some (Inr (v, ?r1)) \<and> sk f r = Some (Inr ?r1)"
    using good[rule_format, OF 2(1) d] by blast
  have d1: "drop (pos ?r1) (buf ?r1) = bs @ rest"
    using drop_append_tail[OF d] by simp
  obtain f2 vs where f2: "\<And>f. f \<ge> f2 \<Longrightarrow>
        read_array_for (rd f) n (acc @ [v]) ?r1
          = Some (Inr ((acc @ [v]) @ vs, ?r1\<lparr>pos := pos ?r1 + length bs\<rparr>))
      \<and> skip_array_for (sk f) n ?r1 = Some (Inr (?r1\<lparr>pos := pos ?r1 + length bs\<rparr>))"
    using 2(3)[OF d1, of "acc @ [v]"] by blast
  have "read_array_for (rd f) (Suc n) acc r
          = Some (Inr (acc @ (v # vs), r\<lparr>pos := pos r + length (b @ bs)\<rparr>))
      \<and> skip_array_for (sk f) (Suc n) r = Some (Inr (r\<lparr>pos := pos r + length (b @ bs)\<rparr>))"
    if "f \<ge> max f1 f2" for f
  proof -
    have ff: "f \<ge> f1" "f \<ge> f2" using that by auto
    show ?thesis using f1[OF ff(1)] f2[OF ff(2)] by (simp add: add.assoc)
  qed
  then show ?case by blast
qed

lemma read_array_while_blocks:
  fixes rd :: "nat \<Rightarrow> reader \<Rightarrow> avro_value outcome" and sk :: "nat \<Rightarrow> reader \<Rightarrow> skipped"
  assumes good: "\<forall>b r rest. Q b \<longrightarrow> drop (pos r) (buf r) = b @ rest \<longrightarrow>
            (\<exists>f0 v. \<forall>f\<ge>f0. rd f r = Some (Inr (v, r\<lparr>pos := pos r + length b\<rparr>))
                          \<and> sk f r = Some (Inr (r\<lparr>pos := pos r + length b\<rparr>)))"
  shows "enc_blocks Q bs \<Longrightarrow> drop (pos r) (buf r) = bs @ rest \<Longrightarrow>
         \<exists>c r1 f0 vs. read_long r = Inr (c, r1) \<and>
           (\<forall>f\<ge>f0. \<forall>g\<ge>f0.
              read_array_while g (rd f) c acc r1
                = Some (Inr (acc @ vs, r\<lparr>pos := pos r + length bs\<rparr>))
            \<and> skip_array_while g (sk f) c r1 = Some (Inr (r\<lparr>pos := pos r + length bs\<rparr>)))"
proof (induction arbitrary: r rest acc rule: enc_blocks.induct)
  case (1 z)
  let ?r1 = "r\<lparr>pos := pos r + length z\<rparr>"
  have rl: "read_long r = Inr (0, ?r1)" using varint_read_long[OF 1(1) 1(2)] by simp
  have w: "read_array_while g (rd f) 0 acc ?r1 = Some (Inr (acc @ [], ?r1))
      \<and> skip_array_while g (sk f) 0 ?r1 = Some (Inr ?r1)" if "g \<ge> Suc 0" for f g
    using that by (cases g) simp_all
  show ?case
    by (rule exI[of _ 0], rule exI[of _ "?r1"], rule exI[of _ "Suc 0"], rule exI[of _ "[]"])
       (use rl w in blast)
next
  case (2 c n body tail)
  let ?r1 = "r\<lparr>pos := pos r + length c\<rparr>"
  let ?r2 = "?r1\<lparr>pos := pos ?r1 + length body\<rparr>"
  have d: "drop (pos r) (buf r) = c @ (body @ tail @ rest)" using 2(6) by simp
  have rl: "read_long r = Inr (n, ?r1)" using varint_read_long[OF 2(1) d] by simp
  have d1: "drop (pos ?r1) (buf ?r1) = body @ (tail @ rest)"
    using drop_append_tail[OF d] by simp
  obtain f1 vs1 where f1: "\<And>f. f \<ge> f1 \<Longrightarrow>
        read_array_for (rd f) (nat n) acc ?r1 = Some (Inr (acc @ vs1, ?r2))
      \<and> skip_array_for (sk f) (nat n) ?r1 = Some (Inr ?r2)"
    using read_array_for_items[where rd = rd and sk = sk and Q = Q and acc = acc, OF good 2(3) d1] by blast
  have d2: "drop (pos ?r2) (buf ?r2) = tail @ rest"
    using drop_append_tail[OF d1] by simp
  obtain c2 r3 f2 vs2 where rl2: "read_long ?r2 = Inr (c2, r3)"
    and f2: "\<And>f g. f \<ge> f2 \<Longrightarrow> g \<ge> f2 \<Longrightarrow>
        read_array_while g (rd f) c2 (acc @ vs1) r3
          = Some (Inr ((acc @ vs1) @ vs2, ?r2\<lparr>pos := pos ?r2 + length tail\<rparr>))
      \<and> skip_array_while g (sk f) c2 r3 = Some (Inr (?r2\<lparr>pos := pos ?r2 + length tail\<rparr>))"
    using 2(5)[OF d2, of "acc @ vs1"] by blast
  have w: "read_array_while g (rd f) n acc ?r1
          = Some (Inr (acc @ (vs1 @ vs2), r\<lparr>pos := pos r + length (c @ body @ tail)\<rparr>))
      \<and> skip_array_while g (sk f) n ?r1
          = Some (Inr (r\<lparr>pos := pos r + length (c @ body @ tail)\<rparr>))"
    if fg: "f \<ge> Suc (max f1 f2)" "g \<ge> Suc (max f1 f2)" for f g
  proof -
    obtain g' where g1: "g = Suc g'" using fg(2) Suc_le_D by blast
    then have g: "g = Suc g'" "g' \<ge> f2" using fg(2) by auto
    have ff: "f \<ge> f1" "f \<ge> f2" using fg(1) by auto
    show ?thesis
      using f1[OF ff(1)] f2[OF ff(2) g(2)] rl2 2(2) by (simp add: g(1) add.assoc)
  qed
  show ?case
    by (rule exI[of _ n], rule exI[of _ "?r1"], rule exI[of _ "Suc (max f1 f2)"],
        rule exI[of _ "vs1 @ vs2"])
       (use rl w in blast)
next
  case (3 c n block_size body tail)
  let ?r1 = "r\<lparr>pos := pos r + length c\<rparr>"
  let ?r1s = "?r1\<lparr>pos := pos ?r1 + length block_size\<rparr>"
  let ?r2 = "?r1s\<lparr>pos := pos ?r1s + length body\<rparr>"
  have d: "drop (pos r) (buf r) = c @ (block_size @ body @ tail @ rest)" using 3(7) by simp
  have rl: "read_long r = Inr (n, ?r1)" using varint_read_long[OF 3(1) d] by simp
  have d1: "drop (pos ?r1) (buf ?r1) = block_size @ (body @ tail @ rest)"
    using drop_append_tail[OF d] by simp
  have rls: "read_long ?r1 = Inr (int (length body), ?r1s)"
    using varint_read_long[OF 3(3) d1] by simp
  have d1s: "drop (pos ?r1s) (buf ?r1s) = body @ (tail @ rest)"
    using drop_append_tail[OF d1] by simp
  obtain f1 vs1 where f1: "\<And>f. f \<ge> f1 \<Longrightarrow>
        read_array_for (rd f) (nat (- n)) acc ?r1s = Some (Inr (acc @ vs1, ?r2))"
    using read_array_for_items[where rd = rd and sk = sk and Q = Q and acc = acc, OF good 3(4) d1s] by blast
  have sk2: "skip ?r1s (int (length body)) = Inr ?r2" by (rule skip_exact)
  have d2: "drop (pos ?r2) (buf ?r2) = tail @ rest"
    using drop_append_tail[OF d1s] by simp
  obtain c2 r3 f2 vs2 where rl2: "read_long ?r2 = Inr (c2, r3)"
    and f2: "\<And>f g. f \<ge> f2 \<Longrightarrow> g \<ge> f2 \<Longrightarrow>
        read_array_while g (rd f) c2 (acc @ vs1) r3
          = Some (Inr ((acc @ vs1) @ vs2, ?r2\<lparr>pos := pos ?r2 + length tail\<rparr>))
      \<and> skip_array_while g (sk f) c2 r3 = Some (Inr (?r2\<lparr>pos := pos ?r2 + length tail\<rparr>))"
    using 3(6)[OF d2, of "acc @ vs1"] by blast
  have w: "read_array_while g (rd f) n acc ?r1
          = Some (Inr (acc @ (vs1 @ vs2), r\<lparr>pos := pos r + length (c @ block_size @ body @ tail)\<rparr>))
      \<and> skip_array_while g (sk f) n ?r1
          = Some (Inr (r\<lparr>pos := pos r + length (c @ block_size @ body @ tail)\<rparr>))"
    if fg: "f \<ge> Suc (max f1 f2)" "g \<ge> Suc (max f1 f2)" for f g
  proof -
    obtain g' where g1: "g = Suc g'" using fg(2) Suc_le_D by blast
    then have g: "g = Suc g'" "g' \<ge> f2" using fg(2) by auto
    have ff: "f \<ge> f1" "f \<ge> f2" using fg(1) by auto
    have na: "nat \<bar>n\<bar> = nat (- n)" using 3(2) by simp
    show ?thesis
      using f1[OF ff(1)] f2[OF ff(2) g(2)] rl2 rls sk2 3(2) by (simp add: g(1) add.assoc)
  qed
  show ?case
    by (rule exI[of _ n], rule exI[of _ "?r1"], rule exI[of _ "Suc (max f1 f2)"],
        rule exI[of _ "vs1 @ vs2"])
       (use rl w in blast)
qed

lemma read_map_for_items:
  fixes rd :: "nat \<Rightarrow> reader \<Rightarrow> avro_value outcome" and sk :: "nat \<Rightarrow> reader \<Rightarrow> skipped"
  assumes good: "\<forall>b r rest. Q b \<longrightarrow> drop (pos r) (buf r) = b @ rest \<longrightarrow>
            (\<exists>f0 v. \<forall>f\<ge>f0. rd f r = Some (Inr (v, r\<lparr>pos := pos r + length b\<rparr>))
                          \<and> sk f r = Some (Inr (r\<lparr>pos := pos r + length b\<rparr>)))"
  shows "enc_items (enc_entry Q) n bs \<Longrightarrow> drop (pos r) (buf r) = bs @ rest \<Longrightarrow>
         \<exists>f0 kvs. \<forall>f\<ge>f0.
            read_map_for (rd f) n acc r = Some (Inr (kvs, r\<lparr>pos := pos r + length bs\<rparr>))
          \<and> skip_map_for (sk f) n r = Some (Inr (r\<lparr>pos := pos r + length bs\<rparr>))"
proof (induction arbitrary: r rest acc rule: enc_items.induct)
  case 1
  then show ?case by simp
next
  case (2 b n bs)
  obtain k v where b: "b = k @ v" and k: "utf8_string k" and v: "Q v"
    using 2(1) by (auto elim: enc_entry.cases)
  let ?rk = "r\<lparr>pos := pos r + length k\<rparr>"
  let ?r1 = "?rk\<lparr>pos := pos ?rk + length v\<rparr>"
  have d: "drop (pos r) (buf r) = k @ (v @ bs @ rest)" using 2(4) b by simp
  obtain key where key: "read_utf8 r = Inr (key, ?rk)" "skip_utf8 r = Inr ?rk"
    using utf8_string_exact[OF k d] by blast
  have dk: "drop (pos ?rk) (buf ?rk) = v @ (bs @ rest)"
    using drop_append_tail[OF d] by simp
  obtain f1 x where f1: "\<And>f. f \<ge> f1 \<Longrightarrow> rd f ?rk = Some (Inr (x, ?r1)) \<and> sk f ?rk = Some (Inr ?r1)"
    using good[rule_format, OF v dk] by blast
  have d1: "drop (pos ?r1) (buf ?r1) = bs @ rest"
    using drop_append_tail[OF dk] by simp
  obtain f2 kvs where f2: "\<And>f. f \<ge> f2 \<Longrightarrow>
        read_map_for (rd f) n (AList.update key x acc) ?r1
          = Some (Inr (kvs, ?r1\<lparr>pos := pos ?r1 + length bs\<rparr>))
      \<and> skip_map_for (sk f) n ?r1 = Some (Inr (?r1\<lparr>pos := pos ?r1 + length bs\<rparr>))"
    using 2(3)[OF d1, of "AList.update key x acc"] by blast
  have w: "read_map_for (rd f) (Suc n) acc r
          = Some (Inr (kvs, r\<lparr>pos := pos r + length (b @ bs)\<rparr>))
      \<and> skip_map_for (sk f) (Suc n) r = Some (Inr (r\<lparr>pos := pos r + length (b @ bs)\<rparr>))"
    if "f \<ge> max f1 f2" for f
  proof -
    have ff: "f \<ge> f1" "f \<ge> f2" using that by auto
    show ?thesis using f1[OF ff(1)] f2[OF ff(2)] key b by (simp add: add.assoc)
  qed
  show ?case
    by (rule exI[of _ "max f1 f2"], rule exI[of _ kvs]) (use w in blast)
qed

lemma read_map_while_blocks:
  fixes rd :: "nat \<Rightarrow> reader \<Rightarrow> avro_value outcome" and sk :: "nat \<Rightarrow> reader \<Rightarrow> skipped"
  assumes good: "\<forall>b r rest. Q b \<longrightarrow> drop (pos r) (buf r) = b @ rest \<longrightarrow>
            (\<exists>f0 v. \<forall>f\<ge>f0. rd f r = Some (Inr (v, r\<lparr>pos := pos r + length b\<rparr>))
                          \<and> sk f r = Some (Inr (r\<lparr>pos := pos r + length b\<rparr>)))"
  shows "enc_blocks (enc_entry Q) bs \<Longrightarrow> drop (pos r) (buf r) = bs @ rest \<Longrightarrow>
         \<exists>c r1 f0 kvs. read_long r = Inr (c, r1) \<and>
           (\<forall>f\<ge>f0. \<forall>g\<ge>f0.
              read_map_while g (rd f) c acc r1
                = Some (Inr (kvs, r\<lparr>pos := pos r + length bs\<rparr>))
            \<and> skip_map_while g (sk f) c r1 = Some (Inr (r\<lparr>pos := pos r + length bs\<rparr>)))"
proof (induction arbitrary: r rest acc rule: enc_blocks.induct)
  case (1 z)
  let ?r1 = "r\<lparr>pos := pos r + length z\<rparr>"
  have rl: "read_long r = Inr (0, ?r1)" using varint_read_long[OF 1(1) 1(2)] by simp
  have w: "read_map_while g (rd f) 0 acc ?r1 = Some (Inr (acc, ?r1))
      \<and> skip_map_while g (sk f) 0 ?r1 = Some (Inr ?r1)" if "g \<ge> Suc 0" for f g
    using that by (cases g) simp_all
  show ?case
    by (rule exI[of _ 0], rule exI[of _ "?r1"], rule exI[of _ "Suc 0"], rule exI[of _ acc])
       (use rl w in blast)
next
  case (2 c n body tail)
  let ?r1 = "r\<lparr>pos := pos r + length c\<rparr>"
  let ?r2 = "?r1\<lparr>pos := pos ?r1 + length body\<rparr>"
  have d: "drop (pos r) (buf r) = c @ (body @ tail @ rest)" using 2(6) by simp
  have rl: "read_long r = Inr (n, ?r1)" using varint_read_long[OF 2(1) d] by simp
  have d1: "drop (pos ?r1) (buf ?r1) = body @ (tail @ rest)"
    using drop_append_tail[OF d] by simp
  obtain f1 kvs1 where f1: "\<And>f. f \<ge> f1 \<Longrightarrow>
        read_map_for (rd f) (nat n) acc ?r1 = Some (Inr (kvs1, ?r2))
      \<and> skip_map_for (sk f) (nat n) ?r1 = Some (Inr ?r2)"
    using read_map_for_items[where rd = rd and sk = sk and Q = Q and acc = acc, OF good 2(3) d1]
    by blast
  have d2: "drop (pos ?r2) (buf ?r2) = tail @ rest"
    using drop_append_tail[OF d1] by simp
  obtain c2 r3 f2 kvs2 where rl2: "read_long ?r2 = Inr (c2, r3)"
    and f2: "\<And>f g. f \<ge> f2 \<Longrightarrow> g \<ge> f2 \<Longrightarrow>
        read_map_while g (rd f) c2 kvs1 r3
          = Some (Inr (kvs2, ?r2\<lparr>pos := pos ?r2 + length tail\<rparr>))
      \<and> skip_map_while g (sk f) c2 r3 = Some (Inr (?r2\<lparr>pos := pos ?r2 + length tail\<rparr>))"
    using 2(5)[OF d2, of kvs1] by blast
  have w: "read_map_while g (rd f) n acc ?r1
          = Some (Inr (kvs2, r\<lparr>pos := pos r + length (c @ body @ tail)\<rparr>))
      \<and> skip_map_while g (sk f) n ?r1
          = Some (Inr (r\<lparr>pos := pos r + length (c @ body @ tail)\<rparr>))"
    if fg: "f \<ge> Suc (max f1 f2)" "g \<ge> Suc (max f1 f2)" for f g
  proof -
    obtain g' where g1: "g = Suc g'" using fg(2) Suc_le_D by blast
    then have g: "g = Suc g'" "g' \<ge> f2" using fg(2) by auto
    have ff: "f \<ge> f1" "f \<ge> f2" using fg(1) by auto
    show ?thesis
      using f1[OF ff(1)] f2[OF ff(2) g(2)] rl2 2(2) by (simp add: g(1) add.assoc)
  qed
  show ?case
    by (rule exI[of _ n], rule exI[of _ "?r1"], rule exI[of _ "Suc (max f1 f2)"],
        rule exI[of _ kvs2])
       (use rl w in blast)
next
  case (3 c n block_size body tail)
  let ?r1 = "r\<lparr>pos := pos r + length c\<rparr>"
  let ?r1s = "?r1\<lparr>pos := pos ?r1 + length block_size\<rparr>"
  let ?r2 = "?r1s\<lparr>pos := pos ?r1s + length body\<rparr>"
  have d: "drop (pos r) (buf r) = c @ (block_size @ body @ tail @ rest)" using 3(7) by simp
  have rl: "read_long r = Inr (n, ?r1)" using varint_read_long[OF 3(1) d] by simp
  have d1: "drop (pos ?r1) (buf ?r1) = block_size @ (body @ tail @ rest)"
    using drop_append_tail[OF d] by simp
  have rls: "read_long ?r1 = Inr (int (length body), ?r1s)"
    using varint_read_long[OF 3(3) d1] by simp
  have d1s: "drop (pos ?r1s) (buf ?r1s) = body @ (tail @ rest)"
    using drop_append_tail[OF d1] by simp
  obtain f1 kvs1 where f1: "\<And>f. f \<ge> f1 \<Longrightarrow>
        read_map_for (rd f) (nat (- n)) acc ?r1s = Some (Inr (kvs1, ?r2))"
    using read_map_for_items[where rd = rd and sk = sk and Q = Q and acc = acc, OF good 3(4) d1s]
    by blast
  have sk2: "skip ?r1s (int (length body)) = Inr ?r2" by (rule skip_exact)
  have d2: "drop (pos ?r2) (buf ?r2) = tail @ rest"
    using drop_append_tail[OF d1s] by simp
  obtain c2 r3 f2 kvs2 where rl2: "read_long ?r2 = Inr (c2, r3)"
    and f2: "\<And>f g. f \<ge> f2 \<Longrightarrow> g \<ge> f2 \<Longrightarrow>
        read_map_while g (rd f) c2 kvs1 r3
          = Some (Inr (kvs2, ?r2\<lparr>pos := pos ?r2 + length tail\<rparr>))
      \<and> skip_map_while g (sk f) c2 r3 = Some (Inr (?r2\<lparr>pos := pos ?r2 + length tail\<rparr>))"
    using 3(6)[OF d2, of kvs1] by blast
  have w: "read_map_while g (rd f) n acc ?r1
          = Some (Inr (kvs2, r\<lparr>pos := pos r + length (c @ block_size @ body @ tail)\<rparr>))
      \<and> skip_map_while g (sk f) n ?r1
          = Some (Inr (r\<lparr>pos := pos r + length (c @ block_size @ body @ tail)\<rparr>))"
    if fg: "f \<ge> Suc (max f1 f2)" "g \<ge> Suc (max f1 f2)" for f g
  proof -
    obtain g' where g1: "g = Suc g'" using fg(2) Suc_le_D by blast
    then have g: "g = Suc g'" "g' \<ge> f2" using fg(2) by auto
    have ff: "f \<ge> f1" "f \<ge> f2" using fg(1) by auto
    show ?thesis
      using f1[OF ff(1)] f2[OF ff(2) g(2)] rl2 rls sk2 3(2) by (simp add: g(1) add.assoc)
  qed
  show ?case
    by (rule exI[of _ n], rule exI[of _ "?r1"], rule exI[of _ "Suc (max f1 f2)"],
        rule exI[of _ kvs2])
       (use rl w in blast)
qed

lemma enough_fuel:
  assumes "\<And>f'. f' \<ge> k \<Longrightarrow> R (Suc f') v"
  shows "\<exists>f0 v. \<forall>f\<ge>f0. R f v"
proof (intro exI[of _ "Suc k"] exI[of _ v] allI impI)
  fix f :: nat
  assume "Suc k \<le> f"
  then obtain f' where "f = Suc f'" and "f' \<ge> k" using Suc_le_D by auto
  then show "R f v" using assms by simp
qed

lemma enc_read_skip:
  "enc s bs \<Longrightarrow>
     \<forall>r rest. drop (pos r) (buf r) = bs @ rest \<longrightarrow>
       (\<exists>f0 v. \<forall>f\<ge>f0.
           read_data f s r = Some (Inr (v, r\<lparr>pos := pos r + length bs\<rparr>))
         \<and> skip_data f s r = Some (Inr (r\<lparr>pos := pos r + length bs\<rparr>)))"
  and "enc_fields field_list bs \<Longrightarrow>
     \<forall>r rest acc. drop (pos r) (buf r) = bs @ rest \<longrightarrow>
       (\<exists>f0 kvs. \<forall>f\<ge>f0.
           read_record_for (read_data f) field_list acc r
             = Some (Inr (kvs, r\<lparr>pos := pos r + length bs\<rparr>))
         \<and> skip_record (skip_data f) field_list r = Some (Inr (r\<lparr>pos := pos r + length bs\<rparr>)))"
proof (induction rule: enc_enc_fields.inducts)
  case enc_null
  show ?case
  proof (intro allI impI)
    fix r :: reader and rest
    show "\<exists>f0 v. \<forall>f\<ge>f0.
           read_data f SNull r = Some (Inr (v, r\<lparr>pos := pos r + length []\<rparr>))
         \<and> skip_data f SNull r = Some (Inr (r\<lparr>pos := pos r + length []\<rparr>))"
      by (rule enough_fuel[where k = 0 and v = VNone]) (simp add: skip_null_def)
  qed
next
  case (enc_boolean b)
  show ?case
  proof (intro allI impI)
    fix r :: reader and rest
    assume d: "drop (pos r) (buf r) = [b] @ rest"
    have ro: "read_ord r = Inr (uint b, r\<lparr>pos := pos r + 1\<rparr>)"
      using d by (simp add: read_ord_next)
    have rb: "read_boolean r = Inr (b = 1, r\<lparr>pos := pos r + 1\<rparr>)"
      using enc_boolean.hyps ro by (auto simp: read_boolean_def)
    have sb: "skip_boolean r = Inr (r\<lparr>pos := pos r + 1\<rparr>)"
      using skip_exact[of r 1] by (simp add: skip_boolean_def)
    show "\<exists>f0 v. \<forall>f\<ge>f0.
           read_data f SBoolean r = Some (Inr (v, r\<lparr>pos := pos r + length [b]\<rparr>))
         \<and> skip_data f SBoolean r = Some (Inr (r\<lparr>pos := pos r + length [b]\<rparr>))"
      by (rule enough_fuel[where k = 0 and v = "VBool (b = 1)"]) (simp add: rb sb lift_def)
  qed
next
  case (enc_string bs)
  show ?case
  proof (intro allI impI)
    fix r :: reader and rest
    assume d: "drop (pos r) (buf r) = bs @ rest"
    obtain s where s: "read_utf8 r = Inr (s, r\<lparr>pos := pos r + length bs\<rparr>)"
        "skip_utf8 r = Inr (r\<lparr>pos := pos r + length bs\<rparr>)"
      using utf8_string_exact[OF enc_string.hyps d] by blast
    show "\<exists>f0 v. \<forall>f\<ge>f0.
           read_data f SString r = Some (Inr (v, r\<lparr>pos := pos r + length bs\<rparr>))
         \<and> skip_data f SString r = Some (Inr (r\<lparr>pos := pos r + length bs\<rparr>))"
      by (rule enough_fuel[where k = 0 and v = "VStr s"]) (simp add: s lift_def)
  qed
next
  case (enc_int bs n)
  show ?case
  proof (intro allI impI)
    fix r :: reader and rest
    assume d: "drop (pos r) (buf r) = bs @ rest"
    note v = varint_read_long[OF enc_int.hyps d]
    show "\<exists>f0 v. \<forall>f\<ge>f0.
           read_data f SInt r = Some (Inr (v, r\<lparr>pos := pos r + length bs\<rparr>))
         \<and> skip_data f SInt r = Some (Inr (r\<lparr>pos := pos r + length bs\<rparr>))"
      by (rule enough_fuel[where k = 0 and v = "VInt n"])
         (simp add: v lift_def read_int_def skip_int_def)
  qed
next
  case (enc_long bs n)
  show ?case
  proof (intro allI impI)
    fix r :: reader and rest
    assume d: "drop (pos r) (buf r) = bs @ rest"
    note v = varint_read_long[OF enc_long.hyps d]
    show "\<exists>f0 v. \<forall>f\<ge>f0.
           read_data f SLong r = Some (Inr (v, r\<lparr>pos := pos r + length bs\<rparr>))
         \<and> skip_data f SLong r = Some (Inr (r\<lparr>pos := pos r + length bs\<rparr>))"
      by (rule enough_fuel[where k = 0 and v = "VInt n"]) (simp add: v lift_def)
  qed
next
  case (enc_float bs)
  show ?case
  proof (intro allI impI)
    fix r :: reader and rest
    assume d: "drop (pos r) (buf r) = bs @ rest"
    have rf: "read_float r = Inr (bs, r\<lparr>pos := pos r + length bs\<rparr>)"
      using read_exact[OF d] enc_float.hyps by (simp add: read_float_def)
    have sf: "skip_float r = Inr (r\<lparr>pos := pos r + length bs\<rparr>)"
      using skip_exact[of r 4] enc_float.hyps by (simp add: skip_float_def)
    show "\<exists>f0 v. \<forall>f\<ge>f0.
           read_data f SFloat r = Some (Inr (v, r\<lparr>pos := pos r + length bs\<rparr>))
         \<and> skip_data f SFloat r = Some (Inr (r\<lparr>pos := pos r + length bs\<rparr>))"
      by (rule enough_fuel[where k = 0 and v = "VFloat bs"]) (simp add: rf sf lift_def)
  qed
next
  case (enc_double bs)
  show ?case
  proof (intro allI impI)
    fix r :: reader and rest
    assume d: "drop (pos r) (buf r) = bs @ rest"
    have rf: "read_double r = Inr (bs, r\<lparr>pos := pos r + length bs\<rparr>)"
      using read_exact[OF d] enc_double.hyps by (simp add: read_double_def)
    have sf: "skip_double r = Inr (r\<lparr>pos := pos r + length bs\<rparr>)"
      using skip_exact[of r 8] enc_double.hyps by (simp add: skip_double_def)
    show "\<exists>f0 v. \<forall>f\<ge>f0.
           read_data f SDouble r = Some (Inr (v, r\<lparr>pos := pos r + length bs\<rparr>))
         \<and> skip_data f SDouble r = Some (Inr (r\<lparr>pos := pos r + length bs\<rparr>))"
      by (rule enough_fuel[where k = 0 and v = "VFloat bs"]) (simp add: rf sf lift_def)
  qed
next
  case (enc_bytes l payload)
  show ?case
  proof (intro allI impI)
    fix r :: reader and rest
    assume d: "drop (pos r) (buf r) = (l @ payload) @ rest"
    note b = read_bytes_exact[OF enc_bytes.hyps d]
    show "\<exists>f0 v. \<forall>f\<ge>f0.
           read_data f SBytes r = Some (Inr (v, r\<lparr>pos := pos r + length (l @ payload)\<rparr>))
         \<and> skip_data f SBytes r = Some (Inr (r\<lparr>pos := pos r + length (l @ payload)\<rparr>))"
      by (rule enough_fuel[where k = 0 and v = "VBytes payload"]) (simp add: b lift_def)
  qed
next
  case (enc_fixed bs)
  show ?case
  proof (intro allI impI)
    fix r :: reader and rest
    assume d: "drop (pos r) (buf r) = bs @ rest"
    have rf: "read_fixed (int (length bs)) r = Inr (bs, r\<lparr>pos := pos r + length bs\<rparr>)"
      using read_exact[OF d] by (simp add: read_fixed_def)
    have sf: "skip_fixed (int (length bs)) r = Inr (r\<lparr>pos := pos r + length bs\<rparr>)"
      using skip_exact[of r "length bs"] by (simp add: skip_fixed_def)
    show "\<exists>f0 v. \<forall>f\<ge>f0.
           read_data f (SFixed (int (length bs))) r = Some (Inr (v, r\<lparr>pos := pos r + length bs\<rparr>))
         \<and> skip_data f (SFixed (int (length bs))) r = Some (Inr (r\<lparr>pos := pos r + length bs\<rparr>))"
      by (rule enough_fuel[where k = 0 and v = "VBytes bs"]) (simp add: rf sf lift_def)
  qed
next
  case (enc_enum bs i symbols)
  show ?case
  proof (intro allI impI)
    fix r :: reader and rest
    assume d: "drop (pos r) (buf r) = bs @ rest"
    note v = varint_read_long[OF enc_enum.hyps(1) d]
    have re: "read_enum symbols r = Inr (symbols ! nat i, r\<lparr>pos := pos r + length bs\<rparr>)"
      using read_enum_index[of r i _ symbols] v enc_enum.hyps(2,3) by simp
    show "\<exists>f0 v. \<forall>f\<ge>f0.
           read_data f (SEnum symbols) r = Some (Inr (v, r\<lparr>pos := pos r + length bs\<rparr>))
         \<and> skip_data f (SEnum symbols) r = Some (Inr (r\<lparr>pos := pos r + length bs\<rparr>))"
      by (rule enough_fuel[where k = 0 and v = "VStr (str (symbols ! nat i))"])
         (simp add: re v lift_def skip_enum_def skip_int_def)
  qed
next
  case (enc_array items bs)
  let ?Q = "\<lambda>x. enc items x \<and>
              (\<forall>r rest. drop (pos r) (buf r) = x @ rest \<longrightarrow>
                 (\<exists>f0 v. \<forall>f\<ge>f0.
                     read_data f items r = Some (Inr (v, r\<lparr>pos := pos r + length x\<rparr>))
                   \<and> skip_data f items r = Some (Inr (r\<lparr>pos := pos r + length x\<rparr>))))"
  have good: "\<forall>b r rest. ?Q b \<longrightarrow> drop (pos r) (buf r) = b @ rest \<longrightarrow>
            (\<exists>f0 v. \<forall>f\<ge>f0. read_data f items r = Some (Inr (v, r\<lparr>pos := pos r + length b\<rparr>))
                          \<and> skip_data f items r = Some (Inr (r\<lparr>pos := pos r + length b\<rparr>)))"
    by blast
  show ?case
  proof (intro allI impI)
    fix r :: reader and rest
    assume d: "drop (pos r) (buf r) = bs @ rest"
    obtain c r1 f0 vs where rl: "read_long r = Inr (c, r1)"
      and w: "\<And>f g. f \<ge> f0 \<Longrightarrow> g \<ge> f0 \<Longrightarrow>
              read_array_while g (read_data f items) c [] r1
                = Some (Inr ([] @ vs, r\<lparr>pos := pos r + length bs\<rparr>))
            \<and> skip_array_while g (skip_data f items) c r1
                = Some (Inr (r\<lparr>pos := pos r + length bs\<rparr>))"
      using read_array_while_blocks[where rd = "\<lambda>f. read_data f items"
          and sk = "\<lambda>f. skip_data f items" and Q = ?Q and acc = "[]", OF good enc_array.IH d]
      by blast
    show "\<exists>f0 v. \<forall>f\<ge>f0.
           read_data f (SArray items) r = Some (Inr (v, r\<lparr>pos := pos r + length bs\<rparr>))
         \<and> skip_data f (SArray items) r = Some (Inr (r\<lparr>pos := pos r + length bs\<rparr>))"
      by (rule enough_fuel[where k = f0 and v = "VList vs"])
         (simp add: rl w read_array_def skip_array_def lift_opt_def)
  qed
next
  case (enc_map vals bs)
  let ?Q = "\<lambda>x. enc vals x \<and>
              (\<forall>r rest. drop (pos r) (buf r) = x @ rest \<longrightarrow>
                 (\<exists>f0 v. \<forall>f\<ge>f0.
                     read_data f vals r = Some (Inr (v, r\<lparr>pos := pos r + length x\<rparr>))
                   \<and> skip_data f vals r = Some (Inr (r\<lparr>pos := pos r + length x\<rparr>))))"
  have good: "\<forall>b r rest. ?Q b \<longrightarrow> drop (pos r) (buf r) = b @ rest \<longrightarrow>
            (\<exists>f0 v. \<forall>f\<ge>f0. read_data f vals r = Some (Inr (v, r\<lparr>pos := pos r + length b\<rparr>))
                          \<and> skip_data f vals r = Some (Inr (r\<lparr>pos := pos r + length b\<rparr>)))"
    by blast
  show ?case
  proof (intro allI impI)
    fix r :: reader and rest
    assume d: "drop (pos r) (buf r) = bs @ rest"
    obtain c r1 f0 kvs where rl: "read_long r = Inr (c, r1)"
      and w: "\<And>f g. f \<ge> f0 \<Longrightarrow> g \<ge> f0 \<Longrightarrow>
              read_map_while g (read_data f vals) c [] r1
                = Some (Inr (kvs, r\<lparr>pos := pos r + length bs\<rparr>))
            \<and> skip_map_while g (skip_data f vals) c r1
                = Some (Inr (r\<lparr>pos := pos r + length bs\<rparr>))"
      using read_map_while_blocks[where rd = "\<lambda>f. read_data f vals"
          and sk = "\<lambda>f. skip_data f vals" and Q = ?Q and acc = "[]", OF good enc_map.IH d]
      by blast
    show "\<exists>f0 v. \<forall>f\<ge>f0.
           read_data f (SMap vals) r = Some (Inr (v, r\<lparr>pos := pos r + length bs\<rparr>))
         \<and> skip_data f (SMap vals) r = Some (Inr (r\<lparr>pos := pos r + length bs\<rparr>))"
      by (rule enough_fuel[where k = f0 and v = "VDict kvs"])
         (simp add: rl w read_map_def skip_map_def lift_opt_def)
  qed
next
  case (enc_union ix i schemas body)
  show ?case
  proof (intro allI impI)
    fix r :: reader and rest
    assume d0: "drop (pos r) (buf r) = (ix @ body) @ rest"
    let ?r1 = "r\<lparr>pos := pos r + length ix\<rparr>"
    have d: "drop (pos r) (buf r) = ix @ (body @ rest)" using d0 by simp
    have rl: "read_long r = Inr (i, ?r1)" using varint_read_long[OF enc_union.hyps(1) d] by simp
    have d1: "drop (pos ?r1) (buf ?r1) = body @ rest" using drop_append_tail[OF d] by simp
    obtain f1 v where f1: "\<And>f. f \<ge> f1 \<Longrightarrow>
          read_data f (schemas ! nat i) ?r1 = Some (Inr (v, ?r1\<lparr>pos := pos ?r1 + length body\<rparr>))
        \<and> skip_data f (schemas ! nat i) ?r1 = Some (Inr (?r1\<lparr>pos := pos ?r1 + length body\<rparr>))"
      using enc_union.IH[rule_format, OF d1] by blast
    have ru: "read_union rd schemas r = rd (schemas ! nat i) ?r1" for rd
      using read_union_index[OF rl, of rd schemas] enc_union.hyps(2,3) by simp
    have su: "skip_union sk schemas r = sk (schemas ! nat i) ?r1" for sk
      using skip_union_index[OF rl, of sk schemas] enc_union.hyps(2,3) by simp
    show "\<exists>f0 v. \<forall>f\<ge>f0.
           read_data f (SUnion schemas) r = Some (Inr (v, r\<lparr>pos := pos r + length (ix @ body)\<rparr>))
         \<and> skip_data f (SUnion schemas) r = Some (Inr (r\<lparr>pos := pos r + length (ix @ body)\<rparr>))"
      by (rule enough_fuel[where k = f1 and v = v]) (simp add: ru su f1 add.assoc)
  qed
next
  case (enc_record field_list bs)
  show ?case
  proof (intro allI impI)
    fix r :: reader and rest
    assume d: "drop (pos r) (buf r) = bs @ rest"
    obtain f1 kvs where f1: "\<And>f. f \<ge> f1 \<Longrightarrow>
          read_record_for (read_data f) field_list [] r
            = Some (Inr (kvs, r\<lparr>pos := pos r + length bs\<rparr>))
        \<and> skip_record (skip_data f) field_list r = Some (Inr (r\<lparr>pos := pos r + length bs\<rparr>))"
      using enc_record.IH[rule_format, OF d, of "[]"] by blast
    show "\<exists>f0 v. \<forall>f\<ge>f0.
           read_data f (SRecord field_list) r = Some (Inr (v, r\<lparr>pos := pos r + length bs\<rparr>))
         \<and> skip_data f (SRecord field_list) r = Some (Inr (r\<lparr>pos := pos r + length bs\<rparr>))"
      by (rule enough_fuel[where k = f1 and v = "VDict kvs"])
         (simp add: f1 read_record_def lift_opt_def)
  qed
next
  case enc_fields_nil
  show ?case by simp
next
  case (enc_fields_cons s b field_list bs name)
  show ?case
  proof (intro allI impI)
    fix r :: reader and rest and acc :: "(pystr \<times> avro_value) list"
    assume d0: "drop (pos r) (buf r) = (b @ bs) @ rest"
    let ?r1 = "r\<lparr>pos := pos r + length b\<rparr>"
    have d: "drop (pos r) (buf r) = b @ (bs @ rest)" using d0 by simp
    obtain f1 v where f1: "\<And>f. f \<ge> f1 \<Longrightarrow>
          read_data f s r = Some (Inr (v, ?r1)) \<and> skip_data f s r = Some (Inr ?r1)"
      using enc_fields_cons.IH(1)[rule_format, OF d] by blast
    have d1: "drop (pos ?r1) (buf ?r1) = bs @ rest" using drop_append_tail[OF d] by simp
    obtain f2 kvs where f2: "\<And>f. f \<ge> f2 \<Longrightarrow>
          read_record_for (read_data f) field_list (AList.update (str name) v acc) ?r1
            = Some (Inr (kvs, ?r1\<lparr>pos := pos ?r1 + length bs\<rparr>))
        \<and> skip_record (skip_data f) field_list ?r1 = Some (Inr (?r1\<lparr>pos := pos ?r1 + length bs\<rparr>))"
      using enc_fields_cons.IH(2)[rule_format, OF d1, of "AList.update (str name) v acc"] by blast
    have w: "read_record_for (read_data f) ((name, s) # field_list) acc r
            = Some (Inr (kvs, r\<lparr>pos := pos r + length (b @ bs)\<rparr>))
        \<and> skip_record (skip_data f) ((name, s) # field_list) r
            = Some (Inr (r\<lparr>pos := pos r + length (b @ bs)\<rparr>))"
      if "f \<ge> max f1 f2" for f
    proof -
      have ff: "f \<ge> f1" "f \<ge> f2" using that by auto
      show ?thesis using f1[OF ff(1)] f2[OF ff(2)] by (simp add: add.assoc)
    qed
    show "\<exists>f0 kvs. \<forall>f\<ge>f0.
           read_record_for (read_data f) ((name, s) # field_list) acc r
             = Some (Inr (kvs, r\<lparr>pos := pos r + length (b @ bs)\<rparr>))
         \<and> skip_record (skip_data f) ((name, s) # field_list) r
             = Some (Inr (r\<lparr>pos := pos r + length (b @ bs)\<rparr>))"
      by (rule exI[of _ "max f1 f2"], rule exI[of _ kvs]) (use w in blast)
  qed
qed

text \<open>
  Claim C3. For every schema \<open>s\<close> and every stream whose bytes at the position are a
  well-formed encoding \<open>bs\<close> of schema \<open>s\<close> (followed by anything), \<open>read_data\<close> and
  \<open>skip_data\<close> both return, given enough fuel, and leave the decoder in the same state:
  the position has moved over exactly the bytes of \<open>bs\<close>, whether the value was decoded
  or skipped.
\<close>

theorem skip_data_position_is_read_data_position:
  assumes "enc s bs" and "drop (pos r) (buf r) = bs @ rest"
  shows "\<exists>f0 v. \<forall>f\<ge>f0.
           read_data f s r = Some (Inr (v, r\<lparr>pos := pos r + length bs\<rparr>))
         \<and> skip_data f s r = Some (Inr (r\<lparr>pos := pos r + length bs\<rparr>))"
  by (rule enc_read_skip(1)[OF assms(1), rule_format, OF assms(2)])

theorem skip_data_position_is_read_data_position_witness:
  "enc (SArray SLong) [0x03, 0x04, 0x02, 0x04, 0x00]
   \<and> (\<exists>f0 v. \<forall>f\<ge>f0.
         read_data f (SArray SLong) \<lparr>buf = [0x03, 0x04, 0x02, 0x04, 0x00, 0x09], pos = 0\<rparr>
           = Some (Inr (v, \<lparr>buf = [0x03, 0x04, 0x02, 0x04, 0x00, 0x09], pos = 5\<rparr>))
       \<and> skip_data f (SArray SLong) \<lparr>buf = [0x03, 0x04, 0x02, 0x04, 0x00, 0x09], pos = 0\<rparr>
           = Some (Inr \<lparr>buf = [0x03, 0x04, 0x02, 0x04, 0x00, 0x09], pos = 5\<rparr>))"
proof -
  have v3: "varint ([] @ [0x03]) (- 2)" by (rule varint.intros) simp_all
  have v4: "varint ([] @ [0x04]) 2" by (rule varint.intros) simp_all
  have v2: "varint ([] @ [0x02]) 1" by (rule varint.intros) simp_all
  have v0: "varint ([] @ [0x00]) 0" by (rule varint.intros) simp_all
  have i0: "enc_items (enc SLong) 0 []" by (rule enc_items.intros(1))
  have i1: "enc_items (enc SLong) (Suc 0) (([] @ [0x04]) @ [])"
    by (rule enc_items.intros(2)[OF enc_long[OF v4] i0])
  have i2: "enc_items (enc SLong) (Suc (Suc 0)) (([] @ [0x02]) @ ([] @ [0x04]) @ [])"
    by (rule enc_items.intros(2)[OF enc_long[OF v2] i1])
  have i2': "enc_items (enc SLong) (nat (- (- 2))) [0x02, 0x04]"
    using i2 by (simp add: eval_nat_numeral)
  have sz: "varint ([] @ [0x04]) (int (length [0x02 :: byte, 0x04]))" using v4 by simp
  have "enc_blocks (enc SLong) (([] @ [0x03]) @ ([] @ [0x04]) @ [0x02, 0x04] @ ([] @ [0x00]))"
    by (rule enc_blocks.intros(3)[OF v3 _ sz i2' enc_blocks.intros(1)[OF v0]]) simp
  then have e: "enc (SArray SLong) [0x03, 0x04, 0x02, 0x04, 0x00]"
    using enc_array[of SLong "[0x03, 0x04, 0x02, 0x04, 0x00]"] by simp
  have d: "drop (pos \<lparr>buf = [0x03, 0x04, 0x02, 0x04, 0x00, 0x09], pos = 0\<rparr>)
             (buf \<lparr>buf = [0x03, 0x04, 0x02, 0x04, 0x00, 0x09], pos = 0\<rparr>)
           = [0x03, 0x04, 0x02, 0x04, 0x00] @ [0x09 :: byte]"
    by simp
  have p: "\<lparr>buf = [0x03, 0x04, 0x02, 0x04, 0x00, 0x09], pos = 0\<rparr>
             \<lparr>pos := pos \<lparr>buf = [0x03, 0x04, 0x02, 0x04, 0x00, 0x09 :: byte], pos = 0\<rparr>
                      + length [0x03, 0x04, 0x02, 0x04, 0x00 :: byte]\<rparr>
           = \<lparr>buf = [0x03, 0x04, 0x02, 0x04, 0x00, 0x09], pos = 5\<rparr>"
    by simp
  show ?thesis
    using e skip_data_position_is_read_data_position[OF e d, unfolded p] by (rule conjI)
qed

section \<open>Properties of the polling method\<close>

lemma run_finished: "finished p \<Longrightarrow> run command p = Some (Returned p)"
  by (subst run.simps) simp

text \<open>
  Claim C6. Once \<open>finished\<close> holds, any number \<open>n\<close> of further calls of \<open>run\<close> return
  without raising and leave the polling method as it was: the command is not invoked
  (\<open>calls\<close> keeps its value), nothing is slept (\<open>sleeps\<close> keeps its value), and
  \<open>resource\<close> is the same.
\<close>

theorem run_after_finished:
  assumes "finished p"
  shows "run_times command n p = Some (Returned p)"
  using assms by (induction n) (simp_all add: run_finished)

theorem run_after_finished_witness:
  "run_times (\<lambda>k. OtherException) 4
     \<lparr>resource = ''r'', finished = True, interval = 2, calls = 3, sleeps = [2, 2, 2]\<rparr>
   = Some (Returned \<lparr>resource = ''r'', finished = True, interval = 2, calls = 3, sleeps = [2, 2, 2]\<rparr>)"
  using run_after_finished[of
      "\<lparr>resource = ''r'', finished = True, interval = 2, calls = 3, sleeps = [2, 2, 2]\<rparr>"
      "\<lambda>k. OtherException" 4]
  by simp

lemma run_not_found_then_returns:
  "\<not> finished p \<Longrightarrow> \<forall>i<K. command (calls p + i) = ResourceNotFoundError \<Longrightarrow>
   command (calls p + K) = Returns \<Longrightarrow>
   run command p =
     Some (Returned (p\<lparr>finished := True, calls := calls p + K + 1,
                        sleeps := sleeps p @ replicate K (interval p)\<rparr>))"
proof (induction K arbitrary: p)
  case 0
  then show ?case by (subst run.simps) simp
next
  case (Suc K)
  let ?p = "p\<lparr>calls := calls p + 1, sleeps := sleeps p @ [interval p]\<rparr>"
  have first: "command (calls p) = ResourceNotFoundError"
    using Suc.prems(2) by (metis add.right_neutral zero_less_Suc)
  have step: "run command p = run command ?p"
    using Suc.prems(1) first by (subst run.simps) simp
  have nf: "\<forall>i<K. command (calls ?p + i) = ResourceNotFoundError"
  proof (intro allI impI)
    fix i assume "i < K"
    then have "command (calls p + Suc i) = ResourceNotFoundError"
      using Suc.prems(2) by (meson Suc_less_eq)
    then show "command (calls ?p + i) = ResourceNotFoundError" by simp
  qed
  have "run command ?p =
          Some (Returned (?p\<lparr>finished := True, calls := calls ?p + K + 1,
                              sleeps := sleeps ?p @ replicate K (interval ?p)\<rparr>))"
    using Suc.prems(1,3) by (intro Suc.IH nf) simp_all
  then show ?case using step by (simp add: replicate_app_Cons_same)
qed

text \<open>
  Claim C7. If, starting from a polling method that is not finished, the command raises
  the resource-not-found error on its next \<open>K\<close> invocations and returns on the one after,
  then \<open>run\<close> returns, having invoked the command exactly \<open>K + 1\<close> times and slept exactly
  \<open>K\<close> times, each time for the configured interval, and \<open>finished\<close> holds afterwards.
\<close>

theorem run_absorbs_not_found:
  assumes "\<not> finished p"
    and "\<forall>i<K. command (calls p + i) = ResourceNotFoundError"
    and "command (calls p + K) = Returns"
  shows "\<exists>p'. run command p = Some (Returned p')
              \<and> finished p'
              \<and> calls p' = calls p + (K + 1)
              \<and> sleeps p' = sleeps p @ replicate K (interval p)
              \<and> resource p' = resource p"
  using run_not_found_then_returns[OF assms] by simp

theorem run_absorbs_not_found_witness:
  "\<exists>p'. run (\<lambda>k. if k < 3 then ResourceNotFoundError else Returns)
            \<lparr>resource = ''r'', finished = False, interval = 2, calls = 0, sleeps = []\<rparr>
          = Some (Returned p')
        \<and> finished p' \<and> calls p' = 4 \<and> sleeps p' = [2, 2, 2] \<and> resource p' = ''r''"
  using run_absorbs_not_found[of
      "\<lparr>resource = ''r'', finished = False, interval = 2, calls = 0, sleeps = []\<rparr>" 3
      "\<lambda>k. if k < 3 then ResourceNotFoundError else Returns"]
  by (simp add: eval_nat_numeral)

section \<open>Properties of the tracing policy\<close>

lemma dict_update_other:
  "k \<notin> fst ` set new \<Longrightarrow> dict_get (dict_update d new) k = dict_get d k"
  unfolding dict_update_def dict_get_def
  by (induction new arbitrary: d) (auto simp: update_conv')

lemma dict_update_new:
  "distinct (map fst new) \<Longrightarrow> map_of new k = Some v \<Longrightarrow> dict_get (dict_update d new) k = Some v"
proof (induction new arbitrary: d)
  case Nil
  then show ?case by simp
next
  case (Cons a new)
  obtain k' v' where a: "a = (k', v')" by (cases a)
  show ?case
  proof (cases "k' = k")
    case True
    then have "k \<notin> fst ` set new" using Cons.prems(1) a by auto
    then have "dict_get (dict_update (AList.update k' v' d) new) k = dict_get (AList.update k' v' d) k"
      by (rule dict_update_other)
    then show ?thesis using True Cons.prems(2) a
      by (simp add: dict_update_def dict_get_def update_conv')
  next
    case False
    then have "map_of new k = Some v" using Cons.prems(2) a by simp
    moreover have "distinct (map fst new)" using Cons.prems(1) by simp
    ultimately have "dict_get (dict_update (AList.update k' v' d) new) k = Some v"
      by (rule Cons.IH[rotated])
    then show ?thesis using a by (simp add: dict_update_def)
  qed
qed

lemma client_attributes:
  assumes "set_http_client_span_attributes env sp req (Some resp) = Inr sp'"
  shows "(status_code resp \<ge> 400 \<longrightarrow>
            dict_get (span_attributes sp') ''error.type'' = Some (AStr (str_int (status_code resp)))
          \<and> dict_get (span_attributes sp') ''http.response.status_code''
              = Some (AInt (status_code resp)))
       \<and> (status_code resp < 400 \<longrightarrow>
            dict_get (span_attributes sp') ''error.type'' = dict_get (span_attributes sp) ''error.type'')
       \<and> closed sp' = closed sp"
proof -
  obtain parsed where p: "urlparse env (url req) = Inr parsed"
    using assms by (auto simp: set_http_client_span_attributes_def Let_def split: sum.splits)
  obtain pt where pt: "port parsed = Inr pt"
    using assms p by (auto simp: set_http_client_span_attributes_def Let_def split: sum.splits)
  define a1 where "a1 = (case hostname parsed of
                       None \<Rightarrow> [(''http.request.method'', AStr (http_method req)), (''url.full'', AStr (url req))]
                     | Some h \<Rightarrow> if h \<noteq> [] then AList.update ''server.address'' (AStr h)
                          [(''http.request.method'', AStr (http_method req)), (''url.full'', AStr (url req))]
                                else [(''http.request.method'', AStr (http_method req)), (''url.full'', AStr (url req))])"
  define a2 where "a2 = (case pt of None \<Rightarrow> a1
                             | Some n \<Rightarrow> if n \<noteq> 0
                                         then AList.update ''server.port'' (AInt (int n)) a1
                                         else a1)"
  define a3 where "a3 = (case dict_get (headers req) ''User-Agent'' of
                               None \<Rightarrow> a2
                             | Some user_agent \<Rightarrow>
                                 if user_agent \<noteq> []
                                 then AList.update ''user_agent.original'' (AStr user_agent) a2
                                 else a2)"
  define a4 where "a4 = (if status_code resp \<noteq> 0 then
                                   (let a = AList.update ''http.response.status_code''
                                              (AInt (status_code resp)) a3
                                    in if status_code resp \<ge> 400
                                       then AList.update ''error.type''
                                              (AStr (str_int (status_code resp))) a
                                       else a)
                                 else a3)"
  have sp': "sp' = set_attributes sp a4"
    using assms p pt
    unfolding set_http_client_span_attributes_def a1_def a2_def a3_def a4_def Let_def
    by simp
  have d1: "distinct (map fst a1)"
    by (auto simp: a1_def distinct_update split: option.splits)
  have k1: "fst ` set a1 \<subseteq> {''http.request.method'', ''url.full'', ''server.address''}"
    by (auto simp: a1_def dom_update split: option.splits if_splits)
  have d2: "distinct (map fst a2)"
    using d1 by (auto simp: a2_def distinct_update split: option.splits)
  have k2: "fst ` set a2 \<subseteq> {''http.request.method'', ''url.full'', ''server.address'', ''server.port''}"
    using k1 by (auto simp: a2_def dom_update split: option.splits if_splits)
  have d3: "distinct (map fst a3)"
    using d2 by (auto simp: a3_def distinct_update split: option.splits)
  have k3: "fst ` set a3 \<subseteq> {''http.request.method'', ''url.full'', ''server.address'', ''server.port'',
                               ''user_agent.original''}"
    using k2 by (auto simp: a3_def dom_update split: option.splits if_splits)
  have d4: "distinct (map fst a4)"
    using d3 by (auto simp: a4_def Let_def distinct_update)
  have hi: "map_of a4 ''error.type'' = Some (AStr (str_int (status_code resp)))
          \<and> map_of a4 ''http.response.status_code'' = Some (AInt (status_code resp))"
    if "status_code resp \<ge> 400"
    using that by (simp add: a4_def Let_def update_conv')
  have lo: "''error.type'' \<notin> fst ` set a4" if "status_code resp < 400"
    using that k3 by (auto simp: a4_def Let_def dom_update)
  show ?thesis
    using hi lo dict_update_new[OF d4] dict_update_other
    by (auto simp: sp' set_attributes_def)
qed







lemma end_span_native:
  assumes "tracing_context (ctx (pipeline s)) = Some sp" and "\<not> has_set_http_attributes sp"
    and "set_http_client_span_attributes env sp (request (pipeline s)) response = Inr sp1"
  shows "\<exists>a. fst ` set a \<subseteq> {''http.request.resend_count'', ''az.client_request_id'',
                            ''az.service_request_id''}
           \<and> tracing_context (ctx (pipeline (snd (end_span env s response exc_info))))
               = Some (case exc_info of
                         None \<Rightarrow> span_end (set_attributes sp1 a)
                       | Some info \<Rightarrow>
                           span_exit
                             (case info of
                                Some t \<Rightarrow> set_attribute (set_attributes sp1 a) ''error.type''
                                           (AStr (error_type_of t))
                              | None \<Rightarrow> set_attributes sp1 a) info)"
proof -
  define a1 where "a1 = (case retry_count (ctx (pipeline s)) of
                    None \<Rightarrow> []
                  | Some n \<Rightarrow> if n \<noteq> 0
                              then AList.update ''http.request.resend_count'' (AInt n) []
                              else [])"
  define a2 where "a2 = (case dict_get (headers (request (pipeline s))) ''x-ms-client-request-id'' of
                    None \<Rightarrow> a1
                  | Some v \<Rightarrow> if v \<noteq> [] then AList.update ''az.client_request_id'' (AStr v) a1
                              else a1)"
  define a3 where "a3 = (case response of
                    None \<Rightarrow> a2
                  | Some resp \<Rightarrow>
                      (case dict_get (response_headers resp) ''x-ms-request-id'' of
                         None \<Rightarrow> a2
                       | Some v \<Rightarrow> AList.update ''az.service_request_id'' (AStr v) a2))"
  have k1: "fst ` set a1 \<subseteq> {''http.request.resend_count''}"
    by (auto simp: a1_def split: option.splits if_splits)
  have k2: "fst ` set a2 \<subseteq> {''http.request.resend_count'', ''az.client_request_id''}"
    using k1 by (auto simp: a2_def dom_update split: option.splits if_splits)
  have k3: "fst ` set a3 \<subseteq> {''http.request.resend_count'', ''az.client_request_id'',
                               ''az.service_request_id''}"
    using k2 by (auto simp: a3_def dom_update split: option.splits if_splits)
  let ?sp' = "case exc_info of
                None \<Rightarrow> span_end (set_attributes sp1 a3)
              | Some info \<Rightarrow>
                  span_exit
                    (case info of
                       Some t \<Rightarrow> set_attribute (set_attributes sp1 a3) ''error.type''
                                  (AStr (error_type_of t))
                     | None \<Rightarrow> set_attributes sp1 a3) info"
  have n: "end_native_span env sp (request (pipeline s)) response a3 exc_info = (None, ?sp')"
    using assms(3) by (simp add: end_native_span_def Let_def split: option.splits)
  have "end_span env s response exc_info =
          (let s1 = set_tracing_context ?sp' s
           in case suppression_token (ctx (pipeline s1)) of
                None \<Rightarrow> (None, s1)
              | Some token \<Rightarrow>
                  (case get_tracer env of
                     Inl e \<Rightarrow> (Some e, s1)
                   | Inr tracer \<Rightarrow>
                       if tracer then (None, s1\<lparr>detached := detached s1 @ [token]\<rparr>)
                       else (None, s1)))"
    using assms(1,2) n unfolding end_span_def a1_def a2_def a3_def Let_def by simp
  then have "tracing_context (ctx (pipeline (snd (end_span env s response exc_info)))) = Some ?sp'"
    by (simp add: Let_def set_tracing_context_def split: option.splits sum.splits)
  then show ?thesis using k3 by blast
qed

lemma client_attributes_returns:
  assumes "urlparse env (url req) = Inr parsed" and "port parsed = Inr p"
  shows "\<exists>sp1. set_http_client_span_attributes env sp req response = Inr sp1"
  using assms by (simp add: set_http_client_span_attributes_def Let_def)

text \<open>
  Claim C9. Let the span in the request's context be a native (OpenTelemetry) span, the
  one whose attributes \<open>_set_http_client_span_attributes\<close> sets, and let the request's URL
  parse with a valid port, so that the attributes are collected. When \<open>on_response\<close> ends
  the span for a response with status code \<open>\<ge> 400\<close>, the span carries
  \<open>http.response.status_code\<close> equal to the status code and \<open>error.type\<close> equal to the
  status code, written as a decimal string (\<open>str(response.status_code)\<close>). For a status
  code below 400 the success path sets no \<open>error.type\<close>: the span's \<open>error.type\<close> is what
  it was before.
\<close>

theorem error_type_on_http_error:
  assumes "tracing_context (ctx (pipeline s)) = Some sp" and "\<not> has_set_http_attributes sp"
    and "urlparse env (url (request (pipeline s))) = Inr parsed" and "port parsed = Inr p"
  shows "\<exists>sp'. tracing_context (ctx (pipeline (snd (on_response env s resp)))) = Some sp'
           \<and> (status_code resp \<ge> 400 \<longrightarrow>
                dict_get (span_attributes sp') ''error.type''
                  = Some (AStr (str_int (status_code resp)))
              \<and> dict_get (span_attributes sp') ''http.response.status_code''
                  = Some (AInt (status_code resp)))
           \<and> (status_code resp < 400 \<longrightarrow>
                dict_get (span_attributes sp') ''error.type''
                  = dict_get (span_attributes sp) ''error.type'')"
proof -
  obtain sp1 where sp1: "set_http_client_span_attributes env sp (request (pipeline s)) (Some resp) = Inr sp1"
    using client_attributes_returns[OF assms(3,4)] by blast
  obtain a where a: "fst ` set a \<subseteq> {''http.request.resend_count'', ''az.client_request_id'',
                                     ''az.service_request_id''}"
    and tc: "tracing_context (ctx (pipeline (snd (end_span env s (Some resp) None))))
               = Some (span_end (set_attributes sp1 a))"
    using end_span_native[OF assms(1,2) sp1, of None] by auto
  have other: "dict_get (span_attributes (span_end (set_attributes sp1 a))) k
                 = dict_get (span_attributes sp1) k"
    if "k = ''error.type'' \<or> k = ''http.response.status_code''" for k
  proof -
    have "k \<notin> fst ` set a" using a that by auto
    then show ?thesis by (simp add: span_end_def set_attributes_def dict_update_other)
  qed
  show ?thesis
    using tc client_attributes[OF sp1] other by (simp add: on_response_def)
qed

theorem error_type_on_http_error_witness:
  "map_option (\<lambda>sp'. dict_get (span_attributes sp') ''error.type'')
     (tracing_context (ctx (pipeline (snd (on_response
        (example_env \<lparr>hostname = Some ''localhost'', port_text = Some ''443''\<rparr>)
        (set_tracing_context
           \<lparr>sp_name = ''GET'', span_attributes = [], has_set_http_attributes = False,
            closed = 0, exited_with = None\<rparr>
           (example_state ''https://localhost:443/secrets''))
        \<lparr>status_code = 404, response_headers = []\<rparr>)))))
   = Some (Some (AStr ''404''))"
proof -
  let ?E = "example_env \<lparr>hostname = Some ''localhost'', port_text = Some ''443''\<rparr>"
  let ?sp = "\<lparr>sp_name = ''GET'', span_attributes = [], has_set_http_attributes = False,
            closed = 0, exited_with = None\<rparr>"
  let ?S = "set_tracing_context ?sp (example_state ''https://localhost:443/secrets'')"
  let ?R = "\<lparr>status_code = 404, response_headers = []\<rparr>"
  have h1: "tracing_context (ctx (pipeline ?S)) = Some ?sp"
    by (simp add: set_tracing_context_def)
  have h2: "\<not> has_set_http_attributes ?sp" by simp
  have h3: "urlparse ?E (url (request (pipeline ?S)))
              = Inr \<lparr>hostname = Some ''localhost'', port_text = Some ''443''\<rparr>"
    by (simp add: example_env_def)
  have h4: "port \<lparr>hostname = Some ''localhost'', port_text = Some ''443''\<rparr> = Inr (Some 443)"
    by (simp add: port_def isdigit_def int_of_digits_def)
  have s: "str_int 404 = ''404''"
    by code_simp
  show ?thesis
    using error_type_on_http_error[OF h1 h2 h3 h4, of ?R] s by auto
qed

lemma end_span_without_span:
  "tracing_context (ctx (pipeline s)) = None \<Longrightarrow>
   on_response env s resp = (None, s) \<and> on_exception env s current = (None, s)"
  by (simp add: on_response_def on_exception_def end_span_def)

lemma end_span_native_closes_once:
  assumes "tracing_context (ctx (pipeline s)) = Some sp" and "\<not> has_set_http_attributes sp"
    and "set_http_client_span_attributes env sp (request (pipeline s)) response = Inr sp1"
  shows "map_option closed (tracing_context (ctx (pipeline (snd (end_span env s response exc_info)))))
           = Some (closed sp + 1)"
proof -
  have c: "closed sp1 = closed sp"
    using assms(3)
    by (auto simp: set_http_client_span_attributes_def Let_def set_attributes_def
             split: sum.splits)
  obtain a where "tracing_context (ctx (pipeline (snd (end_span env s response exc_info))))
               = Some (case exc_info of
                         None \<Rightarrow> span_end (set_attributes sp1 a)
                       | Some info \<Rightarrow>
                           span_exit
                             (case info of
                                Some t \<Rightarrow> set_attribute (set_attributes sp1 a) ''error.type''
                                           (AStr (error_type_of t))
                              | None \<Rightarrow> set_attributes sp1 a) info)"
    using end_span_native[OF assms, of exc_info] by blast
  then show ?thesis
    using c by (simp add: span_end_def span_exit_def set_attributes_def set_attribute_def
                     split: option.splits)
qed

text \<open>
  Claim C5 (evaluation at the failing input). The request is \<open>GET http://localhost:99999/\<close>
  with OpenTelemetry tracing enabled. \<open>on_request\<close> starts a span and stores it in the
  request's context. The transport cannot send to port 99999 and raises, so the pipeline
  calls \<open>on_exception\<close>. There \<open>_set_http_client_span_attributes\<close> reads
  \<open>parsed_url.port\<close>, which raises \<open>ValueError\<close> for a port above 65535, before
  \<open>span.__exit__\<close> is reached: \<open>on_exception\<close> raises and the span is still open. The
  two lemmas above are what does hold: without a span both hooks do nothing, and a
  native span is closed exactly once whenever its attributes are collected without an
  exception.
\<close>

theorem span_left_open_on_invalid_port:
  "fst (on_request (example_env \<lparr>hostname = Some ''localhost'', port_text = Some ''99999''\<rparr>)
          example_policy (example_state ''http://localhost:99999/'')) = None
   \<and> map_option closed (tracing_context (ctx (pipeline (snd
         (on_request (example_env \<lparr>hostname = Some ''localhost'', port_text = Some ''99999''\<rparr>)
            example_policy (example_state ''http://localhost:99999/'')))))) = Some 0
   \<and> fst (on_exception (example_env \<lparr>hostname = Some ''localhost'', port_text = Some ''99999''\<rparr>)
          (snd (on_request (example_env \<lparr>hostname = Some ''localhost'', port_text = Some ''99999''\<rparr>)
                  example_policy (example_state ''http://localhost:99999/'')))
          (Some \<lparr>exc_module = ''azure.core.exceptions'', exc_qualname = ''ServiceRequestError''\<rparr>))
       = Some (Exn ''ValueError'')
   \<and> map_option closed (tracing_context (ctx (pipeline (snd
         (on_exception (example_env \<lparr>hostname = Some ''localhost'', port_text = Some ''99999''\<rparr>)
            (snd (on_request (example_env \<lparr>hostname = Some ''localhost'', port_text = Some ''99999''\<rparr>)
                    example_policy (example_state ''http://localhost:99999/'')))
            (Some \<lparr>exc_module = ''azure.core.exceptions'', exc_qualname = ''ServiceRequestError''\<rparr>))))))
       = Some 0"
proof -
  let ?E = "example_env \<lparr>hostname = Some ''localhost'', port_text = Some ''99999''\<rparr>"
  let ?S0 = "example_state ''http://localhost:99999/''"
  let ?sp = "\<lparr>sp_name = ''GET'', span_attributes = [], has_set_http_attributes = False,
              closed = 0, exited_with = None\<rparr>"
  let ?S1 = "set_suppression_token 1 (set_tracing_context ?sp
               (update_headers [(''traceparent'', ''00-0af7651916cd43dd8448eb211c80319c-b7ad6b7169203331-01'')]
                  ?S0))"
  have r: "on_request ?E example_policy ?S0 = (None, ?S1)"
    by (simp add: on_request_def on_request_try_def on_request_native_def example_env_def
          example_policy_def example_state_def map_options_def default_network_span_namer_def
          dict_update_def Let_def set_tracing_context_def update_headers_def
          set_suppression_token_def)
  have tc: "tracing_context (ctx (pipeline ?S1)) = Some ?sp"
    by (simp add: set_suppression_token_def set_tracing_context_def)
  have p: "port \<lparr>hostname = Some ''localhost'', port_text = Some ''99999''\<rparr> = Inl (Exn ''ValueError'')"
    by (simp add: port_def isdigit_def int_of_digits_def)
  have a: "set_http_client_span_attributes ?E ?sp (request (pipeline ?S1)) None = Inl (Exn ''ValueError'')"
    using p by (simp add: set_http_client_span_attributes_def example_env_def Let_def)
  have e: "on_exception ?E ?S1
             (Some \<lparr>exc_module = ''azure.core.exceptions'', exc_qualname = ''ServiceRequestError''\<rparr>)
           = (Some (Exn ''ValueError''), set_tracing_context ?sp ?S1)"
    using a tc by (simp add: on_exception_def end_span_def end_native_span_def Let_def)
  show ?thesis
    unfolding r using e tc by (simp add: set_tracing_context_def)
qed

end
